theory Spec2Isabelle
  imports
    Complex_Main
    "HOL-Library.Multiset"
    "HOL-Library.List_Lexorder"
    "HOL-Library.Char_ord"
    "HOL-Library.Sublist"
    "HOL-Library.AList"
begin

section \<open>Data model\<close>

text \<open>
  The program is \<^verbatim>\<open>Program_Final__LuxuryBath.py\<close>. Its values are Python dictionaries with
  fixed keys; each becomes a record with one field per key.

  A \<^verbatim>\<open>datetime\<close> is counted in microseconds from a fixed origin (Python's resolution), so
  that comparison is the order of \<open>int\<close> and adding a \<^verbatim>\<open>timedelta\<close> is addition. The range
  limit of \<^verbatim>\<open>datetime\<close> (years 1 to 9999) is not modelled.

  Zip codes, product ids and representative names are Python strings; \<open>\<le>\<close> on \<open>string\<close> is
  the lexicographic order by character code, which is how Python compares them.
\<close>

type_synonym datetime = int
type_synonym zip = string

text \<open>
  The value under \<^verbatim>\<open>"apptdate"\<close> is a string as loaded from the spreadsheet, or a
  \<^verbatim>\<open>datetime\<close> once converted (\<^verbatim>\<open>isinstance(appointment["apptdate"], str)\<close>).
\<close>

datatype apptdate_value = DateStr string | DateTime datetime

record 'd appointment =
  custnumber :: int
  apptdate :: 'd
  Zip :: zip
  productid :: string
  dsp_id :: string

record rep_details =
  curr_zip :: zip
  scope :: "string list"

text \<open>
  \<^verbatim>\<open>sales_reps\<close> is a dictionary from names to details. Python iterates a dictionary in
  insertion order and the order decides ties, so it is an association list; a dictionary
  has no key twice, which theorems that need it assume as \<open>distinct (map fst sales_reps)\<close>.
\<close>

type_synonym roster = "(string \<times> rep_details) list"

text \<open>
  \<^verbatim>\<open>drive_time\<close> is the float \<^verbatim>\<open>value / 60\<close> of an integer number of seconds. The model
  keeps the exact quotient as a rational. Float division by 60 is monotone, and distinct
  integers below \<open>2^53\<close> have distinct float quotients, so the comparisons of the program
  and of the model agree on every duration the service can report.
\<close>

record assignment =
  appointment :: "datetime appointment"
  assigned_to :: string
  drive_time :: rat

text \<open>
  The exceptions of a run: \<^verbatim>\<open>ValueError\<close>; \<^verbatim>\<open>LookupError\<close> for \<^verbatim>\<open>KeyError\<close> and
  \<^verbatim>\<open>IndexError\<close>; \<open>ServiceError\<close> for whatever a call of the distance service raises
  (a timeout, a transport error, an error status the client turns into an exception).
\<close>

datatype error = ValueError | LookupError | ServiceError

text \<open>
  What the program reads of the answer of \<^verbatim>\<open>gmaps.distance_matrix\<close>: the top-level
  \<^verbatim>\<open>"status"\<close>, and \<^verbatim>\<open>["rows"][0]["elements"][0]["duration"]["value"]\<close>, which is \<open>None\<close>
  here when one of the subscripts is missing (Python then raises \<^verbatim>\<open>KeyError\<close> or
  \<^verbatim>\<open>IndexError\<close>, both a \<^verbatim>\<open>LookupError\<close>).
\<close>

record response =
  status :: string
  duration_value :: "int option"

text \<open>The lines the assignment function prints when a lookup fails or nobody can be assigned.\<close>

datatype diagnostic =
  ApiCallFailed zip zip
| NoEligibleRep int zip
| CouldNotAssign int zip

text \<open>
  The state threaded through a run: the cache dictionary, the calls made to the distance
  service so far (origin, destination), and the diagnostics printed so far.
\<close>

record state =
  drive_time_cache :: "(zip \<times> zip) \<rightharpoonup> rat"
  api_calls :: "(zip \<times> zip) list"
  printed :: "diagnostic list"

text \<open>
  One line of the exported table. The title and blank lines that frame a window's rows are
  dictionaries with the same keys in the program; here they are constructors of their own.
\<close>

record result_fields =
  Customer_Number :: int
  Date :: string
  Time :: string
  City :: string
  Product :: string
  Assigned_Rep :: string
  Drive_Time_minutes :: string

datatype result_row = Title nat | Row result_fields | Blank

text \<open>
  The collaborators the program calls and this repository does not contain. The distance
  service may answer the same question differently each time, so its answer depends on
  the number of calls made before; it is \<open>None\<close> where the call raises instead of
  returning. \<^verbatim>\<open>strptime\<close> is \<open>None\<close> where Python raises \<^verbatim>\<open>ValueError\<close>.
  \<^verbatim>\<open>modify_sales_reps\<close> is the dialogue with the user after a window, taken as the
  roster it returns.
\<close>

record collaborators =
  distance_matrix :: "nat \<Rightarrow> zip \<Rightarrow> zip \<Rightarrow> response option"
  strptime :: "string \<Rightarrow> datetime option"
  strftime :: "string \<Rightarrow> datetime \<Rightarrow> string"
  format_2f :: "rat \<Rightarrow> string"
  zip_to_city :: "zip \<Rightarrow> string"
  modify_sales_reps :: "nat \<Rightarrow> datetime \<Rightarrow> datetime \<Rightarrow> roster \<Rightarrow> roster"

section \<open>The assignment function\<close>

subsection \<open>\<^verbatim>\<open>get_drive_time\<close>\<close>

text \<open>\<^verbatim>\<open>tuple(sorted([zip1, zip2]))\<close>\<close>

definition cache_key :: "zip \<Rightarrow> zip \<Rightarrow> zip \<times> zip" where
  "cache_key zip1 zip2 = (if zip1 \<le> zip2 then (zip1, zip2) else (zip2, zip1))"

text \<open>
  Nothing in the function catches an exception: one raised by the call of the service, or
  by the subscripts that read the duration, leaves the function, and every function above
  it up to the \<^verbatim>\<open>except\<close> clauses of \<^verbatim>\<open>main_workflow\<close>.
\<close>

definition get_drive_time ::
  "collaborators \<Rightarrow> zip \<Rightarrow> zip \<Rightarrow> state \<Rightarrow> error + (rat option \<times> state)" where
  "get_drive_time env zip1 zip2 st =
     (case drive_time_cache st (cache_key zip1 zip2) of
        Some t \<Rightarrow> Inr (Some t, st)
      | None \<Rightarrow>
          (case distance_matrix env (length (api_calls st)) zip1 zip2 of
             None \<Rightarrow> Inl ServiceError
           | Some directions_result \<Rightarrow>
               (let st1 = st\<lparr>api_calls := api_calls st @ [(zip1, zip2)]\<rparr>
                in if status directions_result = ''OK'' then
                     (case duration_value directions_result of
                        None \<Rightarrow> Inl LookupError
                      | Some v \<Rightarrow>
                          Inr (Some (of_int v / 60),
                               st1\<lparr>drive_time_cache :=
                                     (drive_time_cache st1)
                                       (cache_key zip1 zip2 \<mapsto> of_int v / 60)\<rparr>))
                   else Inr (None,
                             st1\<lparr>printed := printed st1 @ [ApiCallFailed zip1 zip2]\<rparr>))))"

subsection \<open>The search for the closest representative\<close>

text \<open>
  The two loops over \<^verbatim>\<open>sales_reps.items()\<close> (initial pass and reassignment) differ only in
  the condition a representative must meet, which is the parameter \<open>cond\<close>.
  \<^verbatim>\<open>closest_rep\<close> and \<^verbatim>\<open>min_drive_time\<close> are set together, so the pair is one optional
  value: \<open>None\<close> stands for \<^verbatim>\<open>closest_rep = None\<close>, \<^verbatim>\<open>min_drive_time = inf\<close>.
\<close>

fun closest_rep_loop ::
  "collaborators \<Rightarrow> (string \<Rightarrow> rep_details \<Rightarrow> bool) \<Rightarrow> zip \<Rightarrow> roster \<Rightarrow>
     (string \<times> rat) option \<Rightarrow> state \<Rightarrow> error + ((string \<times> rat) option \<times> state)" where
  "closest_rep_loop env cond appt_zip [] best st = Inr (best, st)"
| "closest_rep_loop env cond appt_zip ((rep, details) # rest) best st =
     (if cond rep details then
        (case get_drive_time env appt_zip (curr_zip details) st of
           Inl e \<Rightarrow> Inl e
         | Inr (None, st') \<Rightarrow> closest_rep_loop env cond appt_zip rest best st'
         | Inr (Some t, st') \<Rightarrow>
             (if (case best of None \<Rightarrow> True | Some (_, min_drive_time) \<Rightarrow> t < min_drive_time)
              then closest_rep_loop env cond appt_zip rest (Some (rep, t)) st'
              else closest_rep_loop env cond appt_zip rest best st'))
      else closest_rep_loop env cond appt_zip rest best st)"

text \<open>\<^verbatim>\<open>if closest_rep:\<close> is false for \<^verbatim>\<open>None\<close> and for the empty name.\<close>

fun truthy :: "(string \<times> rat) option \<Rightarrow> bool" where
  "truthy None = False"
| "truthy (Some (rep, t)) = (rep \<noteq> [])"

subsection \<open>Steps 1 and 3: assignment and reassignment\<close>

text \<open>
  The loop state is \<^verbatim>\<open>rep_appointments\<close> (a dictionary with a list for every name of the
  roster, here a function whose value is \<open>[]\<close> at the start), \<^verbatim>\<open>appointment_assignments\<close>
  and the run state. Steps 1 and 3 are the same loop but for two things, chosen by the
  flag \<open>reassign\<close>: step 3 also requires \<^verbatim>\<open>not rep_appointments[rep]\<close>, and prints another
  line when nobody is found. \<open>assign_body\<close> is the body of the loop, one appointment's turn.
\<close>

type_synonym pass_state =
  "(string \<Rightarrow> datetime appointment list) \<times> assignment list \<times> state"

definition assign_body ::
  "collaborators \<Rightarrow> bool \<Rightarrow> roster \<Rightarrow> datetime appointment \<Rightarrow> pass_state \<Rightarrow>
     error + pass_state" where
  "assign_body env reassign sales_reps appt acc =
     (case acc of (rep_appointments, appointment_assignments, st) \<Rightarrow>
        (case closest_rep_loop env
                (\<lambda>rep details. productid appt \<in> set (scope details) \<and>
                   (if reassign then rep_appointments rep = [] else True))
                (Zip appt) sales_reps None st of
           Inl e \<Rightarrow> Inl e
         | Inr (best, st') \<Rightarrow>
             (if truthy best then
                Inr (rep_appointments
                       (fst (the best) := rep_appointments (fst (the best)) @ [appt]),
                     appointment_assignments @
                       [\<lparr>appointment = appt, assigned_to = fst (the best),
                         drive_time = snd (the best)\<rparr>],
                     st')
              else
                Inr (rep_appointments, appointment_assignments,
                     st'\<lparr>printed := printed st' @
                        [(if reassign then CouldNotAssign else NoEligibleRep)
                           (custnumber appt) (Zip appt)]\<rparr>))))"

fun assign_loop ::
  "collaborators \<Rightarrow> bool \<Rightarrow> roster \<Rightarrow> datetime appointment list \<Rightarrow> pass_state \<Rightarrow>
     error + pass_state" where
  "assign_loop env reassign sales_reps [] acc = Inr acc"
| "assign_loop env reassign sales_reps (appt # rest) acc =
     (case assign_body env reassign sales_reps appt acc of
        Inl e \<Rightarrow> Inl e
      | Inr acc' \<Rightarrow> assign_loop env reassign sales_reps rest acc')"

subsection \<open>Step 2: no double booking\<close>

text \<open>
  \<^verbatim>\<open>list.remove\<close> deletes the first element equal to its argument and raises
  \<^verbatim>\<open>ValueError\<close> when there is none.
\<close>

fun remove_extras ::
  "assignment list \<Rightarrow> assignment list \<times> datetime appointment list \<Rightarrow>
     error + (assignment list \<times> datetime appointment list)" where
  "remove_extras [] acc = Inr acc"
| "remove_extras (extra_appt # rest) (appointment_assignments, unassigned_appointments) =
     (if extra_appt \<in> set appointment_assignments then
        remove_extras rest
          (remove1 extra_appt appointment_assignments,
           unassigned_appointments @ [appointment extra_appt])
      else Inl ValueError)"

text \<open>
  The loop over \<^verbatim>\<open>rep_appointments.items()\<close>, whose keys are those of the roster in the
  roster's order. \<^verbatim>\<open>sorted\<close> is stable, as \<open>sort_key\<close> is; \<^verbatim>\<open>pop(0)\<close> of an empty list
  raises \<^verbatim>\<open>IndexError\<close>.
\<close>

fun adjust_loop ::
  "(string \<Rightarrow> datetime appointment list) \<Rightarrow> string list \<Rightarrow>
     assignment list \<times> datetime appointment list \<Rightarrow>
     error + (assignment list \<times> datetime appointment list)" where
  "adjust_loop rep_appointments [] acc = Inr acc"
| "adjust_loop rep_appointments (rep # rest) (appointment_assignments, unassigned_appointments) =
     (if length (rep_appointments rep) > 1 then
        (case sort_key drive_time
                [appt \<leftarrow> appointment_assignments. assigned_to appt = rep] of
           [] \<Rightarrow> Inl LookupError
         | kept_appointment # sorted_appts \<Rightarrow>
             (case remove_extras sorted_appts
                     (appointment_assignments, unassigned_appointments) of
                Inl e \<Rightarrow> Inl e
              | Inr acc \<Rightarrow> adjust_loop rep_appointments rest acc))
      else adjust_loop rep_appointments rest
             (appointment_assignments, unassigned_appointments))"

subsection \<open>Conversion of the dates, the window, and the whole function\<close>

text \<open>
  \<^verbatim>\<open>datetime.strptime(...) if isinstance(appointment["apptdate"], str) else appointment["apptdate"]\<close>
\<close>

definition to_datetime :: "collaborators \<Rightarrow> apptdate_value \<Rightarrow> error + datetime" where
  "to_datetime env v =
     (case v of
        DateStr s \<Rightarrow> (case strptime env s of None \<Rightarrow> Inl ValueError | Some d \<Rightarrow> Inr d)
      | DateTime d \<Rightarrow> Inr d)"

text \<open>
  The loop that converts the dates in place. Its result is the list of appointments as the
  rest of the function reads them, every date a \<^verbatim>\<open>datetime\<close>; \<open>stored\<close> is the same
  appointment as the caller's list holds it afterwards.
\<close>

fun convert_apptdates ::
  "collaborators \<Rightarrow> apptdate_value appointment list \<Rightarrow> error + datetime appointment list" where
  "convert_apptdates env [] = Inr []"
| "convert_apptdates env (a # rest) =
     (case to_datetime env (apptdate a) of
        Inl e \<Rightarrow> Inl e
      | Inr d \<Rightarrow>
          (case convert_apptdates env rest of
             Inl e \<Rightarrow> Inl e
           | Inr rest' \<Rightarrow>
               Inr (\<lparr>custnumber = custnumber a, apptdate = d, Zip = Zip a,
                     productid = productid a, dsp_id = dsp_id a\<rparr> # rest')))"

definition stored :: "datetime appointment \<Rightarrow> apptdate_value appointment" where
  "stored a =
     \<lparr>custnumber = custnumber a, apptdate = DateTime (apptdate a), Zip = Zip a,
      productid = productid a, dsp_id = dsp_id a\<rparr>"

definition filtered_appointments ::
  "datetime \<Rightarrow> datetime \<Rightarrow> datetime appointment list \<Rightarrow> datetime appointment list" where
  "filtered_appointments time_window_start time_window_end appointments =
     [appt \<leftarrow> appointments.
        time_window_start \<le> apptdate appt \<and> apptdate appt \<le> time_window_end]"

text \<open>
  \<^verbatim>\<open>assign_to_closest_rep\<close>. The parameter \<^verbatim>\<open>api_key\<close> is not used by the program and is
  left out. The cache is a local variable, created empty by every call. The result is the
  returned list, the appointments as the call leaves them, and the run state.
\<close>

definition assign_to_closest_rep ::
  "collaborators \<Rightarrow> apptdate_value appointment list \<Rightarrow> roster \<Rightarrow> datetime \<Rightarrow> datetime \<Rightarrow>
     state \<Rightarrow> error + (assignment list \<times> apptdate_value appointment list \<times> state)" where
  "assign_to_closest_rep env appointments sales_reps time_window_start time_window_end st =
     (case convert_apptdates env appointments of
        Inl e \<Rightarrow> Inl e
      | Inr appts \<Rightarrow>
          (case assign_loop env False sales_reps
                  (filtered_appointments time_window_start time_window_end appts)
                  (\<lambda>rep. [], [], st\<lparr>drive_time_cache := Map.empty\<rparr>) of
             Inl e \<Rightarrow> Inl e
           | Inr (rep_appointments, candidates, st1) \<Rightarrow>
               (case adjust_loop rep_appointments (map fst sales_reps) (candidates, []) of
                  Inl e \<Rightarrow> Inl e
                | Inr (kept, unassigned_appointments) \<Rightarrow>
                    (case assign_loop env True sales_reps unassigned_appointments
                            (rep_appointments, kept, st1) of
                       Inl e \<Rightarrow> Inl e
                     | Inr (_, appointment_assignments, st2) \<Rightarrow>
                         Inr (appointment_assignments, map stored appts, st2)))))"

section \<open>The roster after a window\<close>

text \<open>
  \<^verbatim>\<open>update_sales_reps_zip\<close>. The first loop groups the appointments by representative in
  a dictionary, which is iterated by the second loop, so it is an association list in
  insertion order (\<open>AList.update\<close> replaces the value of a key in place and appends a new
  key). The second loop sorts each group by \<^verbatim>\<open>apptdate\<close> (stable) and takes the last
  element; \<^verbatim>\<open>sales_reps[rep]\<close> raises \<^verbatim>\<open>KeyError\<close> for a name the roster lacks.
\<close>

fun group_by_rep ::
  "assignment list \<Rightarrow> (string \<times> datetime appointment list) list \<Rightarrow>
     (string \<times> datetime appointment list) list" where
  "group_by_rep [] rep_assignments = rep_assignments"
| "group_by_rep (assignment # rest) rep_assignments =
     group_by_rep rest
       (AList.update (assigned_to assignment)
          ((case map_of rep_assignments (assigned_to assignment) of
              None \<Rightarrow> [] | Some appts \<Rightarrow> appts) @ [appointment assignment])
          rep_assignments)"

fun update_loop ::
  "(string \<times> datetime appointment list) list \<Rightarrow> roster \<Rightarrow> error + roster" where
  "update_loop [] sales_reps = Inr sales_reps"
| "update_loop ((rep, assignments) # rest) sales_reps =
     (case sort_key apptdate assignments of
        [] \<Rightarrow> Inl LookupError
      | s # sorted_rest \<Rightarrow>
          (case map_of sales_reps rep of
             None \<Rightarrow> Inl LookupError
           | Some details \<Rightarrow>
               update_loop rest
                 (AList.update rep
                    (details\<lparr>curr_zip := Zip (last (s # sorted_rest))\<rparr>) sales_reps)))"

definition update_sales_reps_zip :: "assignment list \<Rightarrow> roster \<Rightarrow> error + roster" where
  "update_sales_reps_zip appointment_assignments sales_reps =
     update_loop (group_by_rep appointment_assignments []) sales_reps"

section \<open>The windows of a run\<close>

text \<open>
  \<^verbatim>\<open>process_time_window\<close> calls \<^verbatim>\<open>assign_to_closest_rep\<close> and prints; its progress lines
  and those of \<^verbatim>\<open>run_workflow\<close> are not part of the state.
\<close>

definition process_time_window ::
  "datetime \<Rightarrow> datetime \<Rightarrow> collaborators \<Rightarrow> apptdate_value appointment list \<Rightarrow> roster \<Rightarrow>
     nat \<Rightarrow> state \<Rightarrow> error + (assignment list \<times> apptdate_value appointment list \<times> state)" where
  "process_time_window window_start window_end env appointments sales_reps window_number st =
     assign_to_closest_rep env appointments sales_reps window_start window_end st"

text \<open>
  The dictionary \<^verbatim>\<open>run_workflow\<close> appends to \<^verbatim>\<open>results\<close> for an assignment. The key
  \<^verbatim>\<open>"drive_time"\<close> is always present, so the branch for \<^verbatim>\<open>"Unknown"\<close> is never taken.
\<close>

definition result_of :: "collaborators \<Rightarrow> assignment \<Rightarrow> result_row" where
  "result_of env assignment =
     (let appt = appointment assignment in
      Row \<lparr>Customer_Number = custnumber appt,
           Date = strftime env ''%m/%d/%Y'' (apptdate appt),
           Time = strftime env ''%I:%M %p'' (apptdate appt),
           City = zip_to_city env (Zip appt),
           Product = productid appt,
           Assigned_Rep = assigned_to assignment,
           Drive_Time_minutes = format_2f env (drive_time assignment)\<rparr>)"

definition run_workflow ::
  "collaborators \<Rightarrow> apptdate_value appointment list \<Rightarrow> roster \<Rightarrow> datetime \<Rightarrow> datetime \<Rightarrow>
     nat \<Rightarrow> bool \<Rightarrow> state \<Rightarrow>
     error + (roster \<times> result_row list \<times> apptdate_value appointment list \<times> state)" where
  "run_workflow env appointments sales_reps time_window_start time_window_end window_number
       allow_modify_reps st =
     (case process_time_window time_window_start time_window_end env appointments sales_reps
             window_number st of
        Inl e \<Rightarrow> Inl e
      | Inr (assignments, appointments', st') \<Rightarrow>
          (case update_sales_reps_zip assignments sales_reps of
             Inl e \<Rightarrow> Inl e
           | Inr sales_reps' \<Rightarrow>
               Inr (if allow_modify_reps
                    then modify_sales_reps env window_number time_window_start
                           time_window_end sales_reps'
                    else sales_reps',
                    map (result_of env) assignments, appointments', st')))"

text \<open>\<^verbatim>\<open>timedelta(hours=h, minutes=m)\<close> in microseconds.\<close>

definition timedelta :: "int \<Rightarrow> int \<Rightarrow> int" where
  "timedelta hours minutes = (hours * 3600 + minutes * 60) * 1000000"

definition time_windows :: "datetime \<Rightarrow> datetime \<Rightarrow> (nat \<times> datetime \<times> datetime \<times> bool) list" where
  "time_windows earliest_time last_time =
     [(1, earliest_time, earliest_time + timedelta 2 0, True),
      (2, earliest_time + timedelta 2 1, earliest_time + timedelta 5 0, True),
      (3, earliest_time + timedelta 5 1, last_time, False)]"

type_synonym run_state =
  "result_row list \<times> roster \<times> apptdate_value appointment list \<times> state"

fun window_loop ::
  "collaborators \<Rightarrow> (nat \<times> datetime \<times> datetime \<times> bool) list \<Rightarrow> run_state \<Rightarrow>
     error + run_state" where
  "window_loop env [] acc = Inr acc"
| "window_loop env ((window_number, start, end, allow_modify_reps) # rest)
       (all_results, sales_reps, appointments, st) =
     (case run_workflow env appointments sales_reps start end window_number
             allow_modify_reps st of
        Inl e \<Rightarrow> Inl e
      | Inr (sales_reps', results, appointments', st') \<Rightarrow>
          window_loop env rest
            (all_results @ [Title window_number] @ results @ [Blank],
             sales_reps', appointments', st'))"

text \<open>
  \<^verbatim>\<open>main_workflow\<close> up to the export: the result is \<^verbatim>\<open>all_results\<close>, the roster, the
  appointments and the state. An error is an exception that reaches the \<^verbatim>\<open>except\<close>
  clauses at the end, which print it and give up the export; \<^verbatim>\<open>min\<close> of an empty
  sequence raises \<^verbatim>\<open>ValueError\<close>.
\<close>

definition main_workflow ::
  "collaborators \<Rightarrow> apptdate_value appointment list \<Rightarrow> roster \<Rightarrow> state \<Rightarrow> error + run_state" where
  "main_workflow env appointments sales_reps st =
     (case convert_apptdates env appointments of
        Inl e \<Rightarrow> Inl e
      | Inr appts \<Rightarrow>
          (if appts = [] then Inl ValueError
           else
             (let earliest_time = Min (set (map apptdate appts));
                  last_time = Max (set (map apptdate appts))
              in window_loop env (time_windows earliest_time last_time)
                   ([], sales_reps, map stored appts, st))))"

section \<open>The lookups of a search\<close>

text \<open>
  The values the search obtains, in order: for every representative of the roster that
  meets the condition, its name and what \<^verbatim>\<open>get_drive_time\<close> returns at its turn, in the
  state the lookups before have left. The list ends where a lookup raises.
\<close>

fun rep_costs ::
  "collaborators \<Rightarrow> (string \<Rightarrow> rep_details \<Rightarrow> bool) \<Rightarrow> zip \<Rightarrow> roster \<Rightarrow> state \<Rightarrow>
     (string \<times> rat option) list" where
  "rep_costs env cond appt_zip [] st = []"
| "rep_costs env cond appt_zip ((rep, details) # rest) st =
     (if cond rep details then
        (case get_drive_time env appt_zip (curr_zip details) st of
           Inl e \<Rightarrow> []
         | Inr (t, st') \<Rightarrow> (rep, t) # rep_costs env cond appt_zip rest st')
      else rep_costs env cond appt_zip rest st)"

text \<open>The update of \<^verbatim>\<open>closest_rep\<close> and \<^verbatim>\<open>min_drive_time\<close> along a list of such values.\<close>

fun pick :: "(string \<times> rat option) list \<Rightarrow> (string \<times> rat) option \<Rightarrow> (string \<times> rat) option" where
  "pick [] best = best"
| "pick ((rep, None) # rest) best = pick rest best"
| "pick ((rep, Some t) # rest) best =
     (if (case best of None \<Rightarrow> True | Some (_, min_drive_time) \<Rightarrow> t < min_drive_time)
      then pick rest (Some (rep, t)) else pick rest best)"

text \<open>The assignments of a representative in a list of assignments.\<close>

abbreviation (input) booked :: "string \<Rightarrow> assignment list \<Rightarrow> assignment list" where
  "booked rep as \<equiv> [x \<leftarrow> as. assigned_to x = rep]"




section \<open>Example inputs\<close>

text \<open>Concrete collaborators, states and appointments at which the theorems below are tried.\<close>

definition st_empty :: state where
  "st_empty = \<lparr>drive_time_cache = Map.empty, api_calls = [], printed = []\<rparr>"

definition ok_response :: "int \<Rightarrow> response" where
  "ok_response v = \<lparr>status = ''OK'', duration_value = Some v\<rparr>"


definition example_strptime :: "string \<Rightarrow> datetime option" where
  "example_strptime s =
     (if s = ''12/20/2024 09:00:00'' then Some 1734685200000000 else None)"

definition example_env :: "(nat \<Rightarrow> zip \<Rightarrow> zip \<Rightarrow> response) \<Rightarrow> collaborators" where
  "example_env service =
     \<lparr>distance_matrix = (\<lambda>n zip1 zip2. Some (service n zip1 zip2)),
      strptime = example_strptime,
      strftime = (\<lambda>format d. format), format_2f = (\<lambda>t. ''''),
      zip_to_city = (\<lambda>z. z), modify_sales_reps = (\<lambda>n start end sales_reps. sales_reps)\<rparr>"

text \<open>A service that answers 20 minutes between two different zip codes.\<close>

definition always_ok :: "nat \<Rightarrow> zip \<Rightarrow> zip \<Rightarrow> response" where
  "always_ok n zip1 zip2 = ok_response (if zip1 = zip2 then 0 else 1200)"





definition appt_text :: "apptdate_value appointment" where
  "appt_text =
     \<lparr>custnumber = 101, apptdate = DateStr ''12/20/2024 09:00:00'', Zip = ''98001'',
      productid = ''Bath'', dsp_id = ''web''\<rparr>"

definition appt_datetime :: "apptdate_value appointment" where
  "appt_datetime =
     \<lparr>custnumber = 102, apptdate = DateTime 1734692400000000, Zip = ''98002'',
      productid = ''Bath'', dsp_id = ''web''\<rparr>"

text \<open>The caller's list of appointments after a call of the assignment function.\<close>

definition appointments_after ::
  "collaborators \<Rightarrow> apptdate_value appointment list \<Rightarrow> roster \<Rightarrow> datetime \<Rightarrow> datetime \<Rightarrow>
     state \<Rightarrow> apptdate_value appointment list option" where
  "appointments_after env appointments sales_reps start end st =
     (case assign_to_closest_rep env appointments sales_reps start end st of
        Inl e \<Rightarrow> None
      | Inr (assignments, appointments', st') \<Rightarrow> Some appointments')"

text \<open>
  Two appointments at the same place ten minutes apart, and two representatives who may
  serve them, one at that place and one elsewhere.
\<close>

definition appt1 :: "apptdate_value appointment" where
  "appt1 =
     \<lparr>custnumber = 101, apptdate = DateTime 1734685200000000, Zip = ''98001'',
      productid = ''Bath'', dsp_id = ''web''\<rparr>"

definition appt2 :: "apptdate_value appointment" where
  "appt2 =
     \<lparr>custnumber = 102, apptdate = DateTime 1734685800000000, Zip = ''98001'',
      productid = ''Bath'', dsp_id = ''web''\<rparr>"

definition two_reps :: roster where
  "two_reps =
     [(''Ann'', \<lparr>curr_zip = ''98001'', scope = [''Bath'', ''Tub'']\<rparr>),
      (''Bob'', \<lparr>curr_zip = ''98002'', scope = [''Bath'']\<rparr>)]"

definition assigned1 :: assignment where
  "assigned1 =
     \<lparr>appointment =
        \<lparr>custnumber = 101, apptdate = 1734685200000000, Zip = ''98001'',
         productid = ''Bath'', dsp_id = ''web''\<rparr>,
      assigned_to = ''Ann'', drive_time = 0\<rparr>"

definition assigned2 :: assignment where
  "assigned2 =
     \<lparr>appointment =
        \<lparr>custnumber = 102, apptdate = 1734685800000000, Zip = ''98001'',
         productid = ''Bath'', dsp_id = ''web''\<rparr>,
      assigned_to = ''Bob'', drive_time = 20\<rparr>"

text \<open>The first appointment once more, assigned to the second representative.\<close>

definition assigned1_bob :: assignment where
  "assigned1_bob =
     \<lparr>appointment =
        \<lparr>custnumber = 101, apptdate = 1734685200000000, Zip = ''98001'',
         productid = ''Bath'', dsp_id = ''web''\<rparr>,
      assigned_to = ''Bob'', drive_time = 20\<rparr>"

text \<open>The list a call of the assignment function returns.\<close>

definition assignments_of ::
  "error + (assignment list \<times> apptdate_value appointment list \<times> state) \<Rightarrow>
     assignment list option" where
  "assignments_of result =
     (case result of Inl e \<Rightarrow> None | Inr (assignments, appointments', st') \<Rightarrow> Some assignments)"

text \<open>
  The two appointments as the loops read them, two representatives at the same distance,
  and the candidates of the initial pass for them: the tie goes to the first of the roster.
\<close>

definition conv1 :: "datetime appointment" where
  "conv1 =
     \<lparr>custnumber = 101, apptdate = 1734685200000000, Zip = ''98001'',
      productid = ''Bath'', dsp_id = ''web''\<rparr>"

definition conv2 :: "datetime appointment" where
  "conv2 =
     \<lparr>custnumber = 102, apptdate = 1734685800000000, Zip = ''98001'',
      productid = ''Bath'', dsp_id = ''web''\<rparr>"

definition tied_reps :: roster where
  "tied_reps =
     [(''Ann'', \<lparr>curr_zip = ''98002'', scope = [''Bath'', ''Tub'']\<rparr>),
      (''Bob'', \<lparr>curr_zip = ''98003'', scope = [''Bath'']\<rparr>),
      (''Cyd'', \<lparr>curr_zip = ''98001'', scope = [''Tub'']\<rparr>)]"

definition candidate1 :: assignment where
  "candidate1 = \<lparr>appointment = conv1, assigned_to = ''Ann'', drive_time = 20\<rparr>"

definition candidate2 :: assignment where
  "candidate2 = \<lparr>appointment = conv2, assigned_to = ''Ann'', drive_time = 20\<rparr>"

text \<open>The candidates of a pass.\<close>

definition candidates_of :: "error + pass_state \<Rightarrow> assignment list option" where
  "candidates_of result =
     (case result of
        Inl e \<Rightarrow> None
      | Inr (rep_appointments, appointment_assignments, st) \<Rightarrow> Some appointment_assignments)"

text \<open>
  Two assignments of one representative in one window, the later appointment first in
  the list.
\<close>

definition held_late :: assignment where
  "held_late =
     \<lparr>appointment =
        \<lparr>custnumber = 202, apptdate = 1734685800000000, Zip = ''98005'',
         productid = ''Bath'', dsp_id = ''web''\<rparr>,
      assigned_to = ''Ann'', drive_time = 12\<rparr>"

definition held_early :: assignment where
  "held_early =
     \<lparr>appointment =
        \<lparr>custnumber = 201, apptdate = 1734685200000000, Zip = ''98004'',
         productid = ''Bath'', dsp_id = ''web''\<rparr>,
      assigned_to = ''Ann'', drive_time = 7\<rparr>"










text \<open>
  A day with three appointments: one at the start, one thirty seconds after the end of
  the first window, one three hours after the start. The rows of the run for them.
\<close>

definition appt_gap :: "apptdate_value appointment" where
  "appt_gap =
     \<lparr>custnumber = 103, apptdate = DateTime 1734692430000000, Zip = ''98001'',
      productid = ''Bath'', dsp_id = ''web''\<rparr>"

definition appt_late :: "apptdate_value appointment" where
  "appt_late =
     \<lparr>custnumber = 104, apptdate = DateTime 1734696000000000, Zip = ''98002'',
      productid = ''Bath'', dsp_id = ''web''\<rparr>"

definition conv_gap :: "datetime appointment" where
  "conv_gap =
     \<lparr>custnumber = 103, apptdate = 1734692430000000, Zip = ''98001'',
      productid = ''Bath'', dsp_id = ''web''\<rparr>"

definition conv_late :: "datetime appointment" where
  "conv_late =
     \<lparr>custnumber = 104, apptdate = 1734696000000000, Zip = ''98002'',
      productid = ''Bath'', dsp_id = ''web''\<rparr>"

definition day_rows :: "result_row list" where
  "day_rows =
     [Title 1,
      Row \<lparr>Customer_Number = 101, Date = ''%m/%d/%Y'', Time = ''%I:%M %p'', City = ''98001'',
           Product = ''Bath'', Assigned_Rep = ''Ann'', Drive_Time_minutes = ''''\<rparr>,
      Blank,
      Title 2,
      Row \<lparr>Customer_Number = 104, Date = ''%m/%d/%Y'', Time = ''%I:%M %p'', City = ''98002'',
           Product = ''Bath'', Assigned_Rep = ''Bob'', Drive_Time_minutes = ''''\<rparr>,
      Blank,
      Title 3,
      Blank]"

text \<open>The rows a run collects, and the calls it has made to the distance service.\<close>

definition results_of :: "error + run_state \<Rightarrow> result_row list option" where
  "results_of result =
     (case result of
        Inl e \<Rightarrow> None
      | Inr (all_results, sales_reps, appointments, st) \<Rightarrow> Some all_results)"

definition calls_of :: "error + run_state \<Rightarrow> (zip \<times> zip) list option" where
  "calls_of result =
     (case result of
        Inl e \<Rightarrow> None
      | Inr (all_results, sales_reps, appointments, st) \<Rightarrow> Some (api_calls st))"

text \<open>
  A service whose answers grow by ten minutes with every call, two appointments at the
  same place in the first and in the second window, of which only the second
  representative may serve the later one, and what the first window leaves.
\<close>

definition slower_each_call :: "nat \<Rightarrow> zip \<Rightarrow> zip \<Rightarrow> response" where
  "slower_each_call n zip1 zip2 = ok_response (600 * (int n + 1))"

definition bath_first :: "apptdate_value appointment" where
  "bath_first =
     \<lparr>custnumber = 301, apptdate = DateTime 1734685200000000, Zip = ''98001'',
      productid = ''Bath'', dsp_id = ''web''\<rparr>"

definition tub_later :: "apptdate_value appointment" where
  "tub_later =
     \<lparr>custnumber = 302, apptdate = DateTime 1734696000000000, Zip = ''98001'',
      productid = ''Tub'', dsp_id = ''web''\<rparr>"

definition ann_bob :: roster where
  "ann_bob =
     [(''Ann'', \<lparr>curr_zip = ''98002'', scope = [''Bath'']\<rparr>),
      (''Bob'', \<lparr>curr_zip = ''98003'', scope = [''Bath'', ''Tub'']\<rparr>)]"

definition ann_moved :: roster where
  "ann_moved =
     [(''Ann'', \<lparr>curr_zip = ''98001'', scope = [''Bath'']\<rparr>),
      (''Bob'', \<lparr>curr_zip = ''98003'', scope = [''Bath'', ''Tub'']\<rparr>)]"

definition st_after_first_window :: state where
  "st_after_first_window =
     \<lparr>drive_time_cache = [(''98001'', ''98002'') \<mapsto> 10, (''98001'', ''98003'') \<mapsto> 20],
      api_calls = [(''98001'', ''98002''), (''98001'', ''98003'')], printed = []\<rparr>"

definition tub_assigned :: assignment where
  "tub_assigned =
     \<lparr>appointment =
        \<lparr>custnumber = 302, apptdate = 1734696000000000, Zip = ''98001'',
         productid = ''Tub'', dsp_id = ''web''\<rparr>,
      assigned_to = ''Bob'', drive_time = 30\<rparr>"

text \<open>The roster and the state a window leaves.\<close>

definition left_by :: 
  "error + (roster \<times> result_row list \<times> apptdate_value appointment list \<times> state) \<Rightarrow>
     (roster \<times> state) option" where
  "left_by result =
     (case result of
        Inl e \<Rightarrow> None
      | Inr (sales_reps, results, appointments, st) \<Rightarrow> Some (sales_reps, st))"


section \<open>The cost cache\<close>










section \<open>The window\<close>

text \<open>
  C9. The appointments of a window are the appointments of the input whose date lies
  between the two ends, both included: the same elements, each as often as in the input,
  in the order of the input.
\<close>

theorem window_partition:
  "subseq (filtered_appointments start end appointments) appointments \<and>
   set (filtered_appointments start end appointments) =
     {appt. appt \<in> set appointments \<and> start \<le> apptdate appt \<and> apptdate appt \<le> end} \<and>
   (\<forall>appt. count (mset (filtered_appointments start end appointments)) appt =
      (if start \<le> apptdate appt \<and> apptdate appt \<le> end
       then count (mset appointments) appt else 0))"
  by (auto simp: filtered_appointments_def)

section \<open>What a run changes in the appointments\<close>

lemma convert_apptdates_fields:
  "convert_apptdates env appointments = Inr appts \<Longrightarrow>
   list_all2
     (\<lambda>a a'. custnumber a' = custnumber a \<and> Zip a' = Zip a \<and> productid a' = productid a \<and>
        dsp_id a' = dsp_id a \<and>
        (\<exists>d. to_datetime env (apptdate a) = Inr d \<and> apptdate a' = DateTime d))
     appointments (map stored appts)"
proof (induction appointments arbitrary: appts)
  case Nil
  then show ?case by simp
next
  case (Cons a rest)
  then show ?case
    by (auto simp: stored_def split: sum.splits)
qed

lemma convert_apptdates_already:
  "convert_apptdates env appointments = Inr appts \<Longrightarrow>
   \<forall>a \<in> set appointments. \<exists>d. apptdate a = DateTime d \<Longrightarrow>
   map stored appts = appointments"
proof (induction appointments arbitrary: appts)
  case Nil
  then show ?case by simp
next
  case (Cons a rest)
  then show ?case
    by (auto simp: stored_def to_datetime_def split: sum.splits)
qed

lemma convert_apptdates_stored: "convert_apptdates env (map stored appts) = Inr appts"
  by (induction appts) (simp_all add: stored_def to_datetime_def)

lemma assign_to_closest_rep_appointments:
  "assign_to_closest_rep env appointments sales_reps start end st =
     Inr (assignments, appointments', st') \<Longrightarrow>
   \<exists>appts. convert_apptdates env appointments = Inr appts \<and> appointments' = map stored appts"
  by (auto simp: assign_to_closest_rep_def split: sum.splits prod.splits)

lemma run_workflow_appointments:
  "run_workflow env appointments sales_reps start end n allow st =
     Inr (sales_reps', results, appointments', st') \<Longrightarrow>
   \<exists>appts. convert_apptdates env appointments = Inr appts \<and> appointments' = map stored appts"
  by (auto simp: run_workflow_def process_time_window_def split: sum.splits prod.splits
      dest: assign_to_closest_rep_appointments)

lemma window_loop_appointments:
  "window_loop env windows (all_results, sales_reps, map stored appts, st) =
     Inr (all_results', sales_reps', appointments', st') \<Longrightarrow>
   appointments' = map stored appts"
proof (induction windows arbitrary: all_results sales_reps st)
  case Nil
  then show ?case by simp
next
  case (Cons w windows)
  obtain n start "end" allow where w: "w = (n, start, end, allow)"
    by (cases w) auto
  from Cons.prems obtain sr res ap s1 where
    rw: "run_workflow env (map stored appts) sales_reps start end n allow st =
           Inr (sr, res, ap, s1)"
    and rest: "window_loop env windows (all_results @ [Title n] @ res @ [Blank], sr, ap, s1) =
           Inr (all_results', sales_reps', appointments', st')"
    by (auto simp: w split: sum.splits)
  from run_workflow_appointments [OF rw] have "ap = map stored appts"
    by (simp add: convert_apptdates_stored)
  with rest Cons.IH show ?case by blast
qed

lemma main_workflow_appointments:
  "main_workflow env appointments sales_reps st =
     Inr (all_results, sales_reps', appointments', st') \<Longrightarrow>
   \<exists>appts. convert_apptdates env appointments = Inr appts \<and> appointments' = map stored appts"
  by (auto simp: main_workflow_def Let_def split: sum.splits if_splits
      dest: window_loop_appointments)

text \<open>
  C8, as amended. A call of the assignment function, and a whole run, leave the list of
  appointments with the same length and order, and every appointment with its customer
  number, zip code, product and channel. The date is the one field they write: a date
  given as text is replaced by the \<^verbatim>\<open>datetime\<close> it parses to, and a date that is a
  \<^verbatim>\<open>datetime\<close> already stays. So a list whose dates are all \<^verbatim>\<open>datetime\<close>s is left as it
  was.
\<close>

theorem only_apptdate_converted:
  "(assign_to_closest_rep env appointments sales_reps start end st =
      Inr (assignments, appointments', st') \<or>
    main_workflow env appointments sales_reps st =
      Inr (all_results, sales_reps', appointments', st')) \<longrightarrow>
   list_all2
     (\<lambda>a a'. custnumber a' = custnumber a \<and> Zip a' = Zip a \<and> productid a' = productid a \<and>
        dsp_id a' = dsp_id a \<and>
        (\<exists>d. to_datetime env (apptdate a) = Inr d \<and> apptdate a' = DateTime d))
     appointments appointments' \<and>
   ((\<forall>a \<in> set appointments. \<exists>d. apptdate a = DateTime d) \<longrightarrow> appointments' = appointments)"
proof (intro impI)
  assume "assign_to_closest_rep env appointments sales_reps start end st =
      Inr (assignments, appointments', st') \<or>
    main_workflow env appointments sales_reps st =
      Inr (all_results, sales_reps', appointments', st')"
  then obtain appts where conv: "convert_apptdates env appointments = Inr appts"
    and after: "appointments' = map stored appts"
    using assign_to_closest_rep_appointments main_workflow_appointments by blast
  from convert_apptdates_fields [OF conv] convert_apptdates_already [OF conv] after
  show "list_all2
     (\<lambda>a a'. custnumber a' = custnumber a \<and> Zip a' = Zip a \<and> productid a' = productid a \<and>
        dsp_id a' = dsp_id a \<and>
        (\<exists>d. to_datetime env (apptdate a) = Inr d \<and> apptdate a' = DateTime d))
     appointments appointments' \<and>
   ((\<forall>a \<in> set appointments. \<exists>d. apptdate a = DateTime d) \<longrightarrow> appointments' = appointments)"
    by simp
qed

theorem only_apptdate_converted_witness:
  "assign_to_closest_rep (example_env always_ok) [appt_datetime] [] 0 0 st_empty =
     Inr ([], [appt_datetime], st_empty) \<and>
   list_all2
     (\<lambda>a a'. custnumber a' = custnumber a \<and> Zip a' = Zip a \<and> productid a' = productid a \<and>
        dsp_id a' = dsp_id a \<and>
        (\<exists>d. to_datetime (example_env always_ok) (apptdate a) = Inr d \<and>
           apptdate a' = DateTime d))
     [appt_datetime] [appt_datetime]"
proof -
  have run: "assign_to_closest_rep (example_env always_ok) [appt_datetime] [] 0 0 st_empty =
      Inr ([], [appt_datetime], st_empty)"
    by (simp add: assign_to_closest_rep_def to_datetime_def appt_datetime_def
        filtered_appointments_def stored_def st_empty_def)
  with only_apptdate_converted [of "example_env always_ok" "[appt_datetime]" "[]" 0 0
      st_empty "[]" "[appt_datetime]" st_empty]
  show ?thesis by blast
qed

text \<open>
  C8 as stated fails: an appointment whose date is text, as the spreadsheet import
  supplies it, holds a \<^verbatim>\<open>datetime\<close> after the call.
\<close>

theorem apptdate_mutated_counterexample:
  "appointments_after (example_env always_ok) [appt_text] [] 0 0 st_empty =
     Some [appt_text\<lparr>apptdate := DateTime 1734685200000000\<rparr>] \<and>
   appt_text\<lparr>apptdate := DateTime 1734685200000000\<rparr> \<noteq> appt_text"
  by (simp add: appointments_after_def assign_to_closest_rep_def to_datetime_def
      example_env_def example_strptime_def appt_text_def filtered_appointments_def stored_def)

section \<open>The search for the closest representative\<close>

lemma closest_rep_loop_pick:
  "closest_rep_loop env cond z reps best st = Inr (best', st') \<Longrightarrow>
   best' = pick (rep_costs env cond z reps st) best"
proof (induction reps arbitrary: best st)
  case Nil
  then show ?case by simp
next
  case (Cons p reps)
  obtain rep details where p: "p = (rep, details)" by (cases p)
  from Cons.prems Cons.IH show ?case
    by (auto simp: p split: if_splits sum.splits option.splits prod.splits)
qed

lemma closest_rep_loop_roster:
  "closest_rep_loop env cond z reps best st = Inr (best', st') \<Longrightarrow>
   map fst (rep_costs env cond z reps st) = map fst [(rep, d) \<leftarrow> reps. cond rep d]"
proof (induction reps arbitrary: best st)
  case Nil
  then show ?case by simp
next
  case (Cons p reps)
  obtain rep details where p: "p = (rep, details)" by (cases p)
  from Cons.prems Cons.IH show ?case
    by (auto simp: p split: if_splits sum.splits option.splits prod.splits)
qed

lemma pick_keeps:
  "pick costs (Some (r0, m0)) = Some (r, m) \<Longrightarrow>
   (r = r0 \<and> m = m0 \<and> (\<forall>(r', t) \<in> set costs. \<forall>v. t = Some v \<longrightarrow> m \<le> v)) \<or>
   (m < m0 \<and> (\<exists>pre post. costs = pre @ (r, Some m) # post \<and>
      (\<forall>(r', t) \<in> set pre. \<forall>v. t = Some v \<longrightarrow> m < v) \<and>
      (\<forall>(r', t) \<in> set post. \<forall>v. t = Some v \<longrightarrow> m \<le> v)))"
proof (induction costs arbitrary: r0 m0)
  case Nil
  then show ?case by simp
next
  case (Cons c costs)
  obtain rep t where c: "c = (rep, t)" by (cases c)
  show ?case
  proof (cases t)
    case None
    with Cons.prems c have "pick costs (Some (r0, m0)) = Some (r, m)" by simp
    from Cons.IH [OF this] show ?thesis
    proof
      assume "r = r0 \<and> m = m0 \<and> (\<forall>(r', t) \<in> set costs. \<forall>v. t = Some v \<longrightarrow> m \<le> v)"
      then show ?thesis by (auto simp: c None)
    next
      assume "m < m0 \<and> (\<exists>pre post. costs = pre @ (r, Some m) # post \<and>
        (\<forall>(r', t) \<in> set pre. \<forall>v. t = Some v \<longrightarrow> m < v) \<and>
        (\<forall>(r', t) \<in> set post. \<forall>v. t = Some v \<longrightarrow> m \<le> v))"
      then obtain pre post where lt: "m < m0" and split: "costs = pre @ (r, Some m) # post"
        and pre: "\<forall>(r', t) \<in> set pre. \<forall>v. t = Some v \<longrightarrow> m < v"
        and post: "\<forall>(r', t) \<in> set post. \<forall>v. t = Some v \<longrightarrow> m \<le> v"
        by blast
      have "c # costs = (c # pre) @ (r, Some m) # post" by (simp add: split)
      moreover have "\<forall>(r', t) \<in> set (c # pre). \<forall>v. t = Some v \<longrightarrow> m < v"
        using pre by (simp add: c None)
      ultimately show ?thesis using lt post by blast
    qed
  next
    case (Some v)
    show ?thesis
    proof (cases "v < m0")
      case True
      with Cons.prems c Some have "pick costs (Some (rep, v)) = Some (r, m)" by simp
      from Cons.IH [OF this] show ?thesis
      proof
        assume a: "r = rep \<and> m = v \<and> (\<forall>(r', t) \<in> set costs. \<forall>v. t = Some v \<longrightarrow> m \<le> v)"
        have "c # costs = [] @ (r, Some m) # costs" using a by (simp add: c Some)
        moreover have "\<forall>(r', t) \<in> set []. \<forall>v. t = Some v \<longrightarrow> m < v" by simp
        ultimately show ?thesis using a True by blast
      next
        assume "m < v \<and> (\<exists>pre post. costs = pre @ (r, Some m) # post \<and>
          (\<forall>(r', t) \<in> set pre. \<forall>v. t = Some v \<longrightarrow> m < v) \<and>
          (\<forall>(r', t) \<in> set post. \<forall>v. t = Some v \<longrightarrow> m \<le> v))"
        then obtain pre post where lt: "m < v" and split: "costs = pre @ (r, Some m) # post"
          and pre: "\<forall>(r', t) \<in> set pre. \<forall>v. t = Some v \<longrightarrow> m < v"
          and post: "\<forall>(r', t) \<in> set post. \<forall>v. t = Some v \<longrightarrow> m \<le> v"
          by blast
        have "c # costs = (c # pre) @ (r, Some m) # post" by (simp add: split)
        moreover have "\<forall>(r', t) \<in> set (c # pre). \<forall>v. t = Some v \<longrightarrow> m < v"
          using pre lt by (simp add: c Some)
        moreover have "m < m0" using lt True by simp
        ultimately show ?thesis using post by blast
      qed
    next
      case False
      with Cons.prems c Some have "pick costs (Some (r0, m0)) = Some (r, m)" by simp
      from Cons.IH [OF this] show ?thesis
      proof
        assume "r = r0 \<and> m = m0 \<and> (\<forall>(r', t) \<in> set costs. \<forall>v. t = Some v \<longrightarrow> m \<le> v)"
        then show ?thesis using False by (auto simp: c Some)
      next
        assume "m < m0 \<and> (\<exists>pre post. costs = pre @ (r, Some m) # post \<and>
          (\<forall>(r', t) \<in> set pre. \<forall>v. t = Some v \<longrightarrow> m < v) \<and>
          (\<forall>(r', t) \<in> set post. \<forall>v. t = Some v \<longrightarrow> m \<le> v))"
        then obtain pre post where lt: "m < m0" and split: "costs = pre @ (r, Some m) # post"
          and pre: "\<forall>(r', t) \<in> set pre. \<forall>v. t = Some v \<longrightarrow> m < v"
          and post: "\<forall>(r', t) \<in> set post. \<forall>v. t = Some v \<longrightarrow> m \<le> v"
          by blast
        have "c # costs = (c # pre) @ (r, Some m) # post" by (simp add: split)
        moreover have "\<forall>(r', t) \<in> set (c # pre). \<forall>v. t = Some v \<longrightarrow> m < v"
          using pre lt False by (simp add: c Some)
        ultimately show ?thesis using lt post by blast
      qed
    qed
  qed
qed


lemma pick_first_minimal:
  "pick costs None = Some (r, m) \<Longrightarrow>
   \<exists>pre post. costs = pre @ (r, Some m) # post \<and>
      (\<forall>(r', t) \<in> set pre. \<forall>v. t = Some v \<longrightarrow> m < v) \<and>
      (\<forall>(r', t) \<in> set post. \<forall>v. t = Some v \<longrightarrow> m \<le> v)"
proof (induction costs)
  case Nil
  then show ?case by simp
next
  case (Cons c costs)
  obtain rep t where c: "c = (rep, t)" by (cases c)
  show ?case
  proof (cases t)
    case None
    with Cons.prems c have "pick costs None = Some (r, m)" by simp
    from Cons.IH [OF this] obtain pre post where split: "costs = pre @ (r, Some m) # post"
      and pre: "\<forall>(r', t) \<in> set pre. \<forall>v. t = Some v \<longrightarrow> m < v"
      and post: "\<forall>(r', t) \<in> set post. \<forall>v. t = Some v \<longrightarrow> m \<le> v"
      by blast
    have "c # costs = (c # pre) @ (r, Some m) # post" by (simp add: split)
    moreover have "\<forall>(r', t) \<in> set (c # pre). \<forall>v. t = Some v \<longrightarrow> m < v"
      using pre by (simp add: c None)
    ultimately show ?thesis using post by blast
  next
    case (Some v)
    with Cons.prems c have "pick costs (Some (rep, v)) = Some (r, m)" by simp
    from pick_keeps [OF this] show ?thesis
    proof
      assume a: "r = rep \<and> m = v \<and> (\<forall>(r', t) \<in> set costs. \<forall>v. t = Some v \<longrightarrow> m \<le> v)"
      have "c # costs = [] @ (r, Some m) # costs" using a by (simp add: c Some)
      moreover have "\<forall>(r', t) \<in> set []. \<forall>v. t = Some v \<longrightarrow> m < v" by simp
      ultimately show ?thesis using a by blast
    next
      assume "m < v \<and> (\<exists>pre post. costs = pre @ (r, Some m) # post \<and>
        (\<forall>(r', t) \<in> set pre. \<forall>v. t = Some v \<longrightarrow> m < v) \<and>
        (\<forall>(r', t) \<in> set post. \<forall>v. t = Some v \<longrightarrow> m \<le> v))"
      then obtain pre post where lt: "m < v" and split: "costs = pre @ (r, Some m) # post"
        and pre: "\<forall>(r', t) \<in> set pre. \<forall>v. t = Some v \<longrightarrow> m < v"
        and post: "\<forall>(r', t) \<in> set post. \<forall>v. t = Some v \<longrightarrow> m \<le> v"
        by blast
      have "c # costs = (c # pre) @ (r, Some m) # post" by (simp add: split)
      moreover have "\<forall>(r', t) \<in> set (c # pre). \<forall>v. t = Some v \<longrightarrow> m < v"
        using pre lt by (simp add: c Some)
      ultimately show ?thesis using post by blast
    qed
  qed
qed



section \<open>The two assignment loops\<close>

lemma subset_add_mset: "A \<subseteq># B \<Longrightarrow> A \<subseteq># add_mset a B"
  by (auto simp: subseteq_mset_def intro: le_SucI)

lemma rep_costs_member:
  "(r, t) \<in> set (rep_costs env cond z reps st) \<Longrightarrow> \<exists>d. (r, d) \<in> set reps \<and> cond r d"
proof (induction reps arbitrary: st)
  case Nil
  then show ?case by simp
next
  case (Cons p reps)
  obtain rep details where p: "p = (rep, details)" by (cases p)
  from Cons.prems Cons.IH show ?case
    by (fastforce simp: p split: if_splits sum.splits prod.splits)
qed

lemma closest_rep_loop_eligible:
  assumes "closest_rep_loop env cond z reps None st = Inr (Some (r, m), st')"
  shows "\<exists>d. (r, d) \<in> set reps \<and> cond r d"
proof -
  from closest_rep_loop_pick [OF assms]
  have "pick (rep_costs env cond z reps st) None = Some (r, m)" by simp
  from pick_first_minimal [OF this]
  have "(r, Some m) \<in> set (rep_costs env cond z reps st)" by auto
  then show ?thesis by (rule rep_costs_member)
qed

lemma assign_loop_append:
  "assign_loop env b reps (xs @ ys) acc =
     (case assign_loop env b reps xs acc of
        Inl e \<Rightarrow> Inl e
      | Inr acc' \<Rightarrow> assign_loop env b reps ys acc')"
  by (induction xs arbitrary: acc) (simp_all split: sum.splits)

text \<open>One turn of the loop.\<close>

lemma assign_body_cases:
  assumes "assign_body env b reps a (ra, as, st) = Inr (ra', as', st')"
  obtains (assigned) r m where
      "closest_rep_loop env
         (\<lambda>rep details. productid a \<in> set (scope details) \<and>
            (if b then ra rep = [] else True))
         (Zip a) reps None st = Inr (Some (r, m), st')"
      "r \<noteq> []" "ra' = ra(r := ra r @ [a])"
      "as' = as @ [\<lparr>appointment = a, assigned_to = r, drive_time = m\<rparr>]"
  | (unassigned) best st1 where
      "closest_rep_loop env
         (\<lambda>rep details. productid a \<in> set (scope details) \<and>
            (if b then ra rep = [] else True))
         (Zip a) reps None st = Inr (best, st1)"
      "\<not> truthy best" "ra' = ra" "as' = as"
      "st' = st1\<lparr>printed := printed st1 @
         [(if b then CouldNotAssign else NoEligibleRep) (custnumber a) (Zip a)]\<rparr>"
proof -
  from assms obtain best st1 where
    search: "closest_rep_loop env
         (\<lambda>rep details. productid a \<in> set (scope details) \<and>
            (if b then ra rep = [] else True))
         (Zip a) reps None st = Inr (best, st1)"
    by (auto simp: assign_body_def split: sum.splits)
  show thesis
  proof (cases "truthy best")
    case True
    then obtain r m where "best = Some (r, m)" "r \<noteq> []"
      by (cases best) auto
    with assms search assigned show ?thesis
      by (auto simp: assign_body_def)
  next
    case False
    with assms search unassigned show ?thesis
      by (auto simp: assign_body_def)
  qed
qed

lemma assign_body_new:
  assumes "assign_body env b reps a (ra, as, st) = Inr (ra', as', st')"
  shows "\<exists>new. as' = as @ new \<and>
     mset (map appointment new) \<subseteq># {#a#} \<and>
     (\<forall>x \<in> set new. \<exists>d. (assigned_to x, d) \<in> set reps \<and>
        productid (appointment x) \<in> set (scope d)) \<and>
     (\<forall>r. ra' r = ra r @ map appointment [x \<leftarrow> new. assigned_to x = r]) \<and>
     (b \<longrightarrow> distinct (map assigned_to new) \<and> (\<forall>x \<in> set new. ra (assigned_to x) = []))"
  using assms
proof (cases rule: assign_body_cases)
  case (assigned r m)
  from closest_rep_loop_eligible [OF assigned(1)]
  obtain d where "(r, d) \<in> set reps" "productid a \<in> set (scope d)"
    "b \<longrightarrow> ra r = []"
    by (auto split: if_splits)
  with assigned show ?thesis
    by (intro exI [of _ "[\<lparr>appointment = a, assigned_to = r, drive_time = m\<rparr>]"]) auto
next
  case (unassigned best st1)
  then show ?thesis by (intro exI [of _ "[]"]) simp
qed

lemma assign_loop_new:
  "assign_loop env b reps appts (ra, as, st) = Inr (ra', as', st') \<Longrightarrow>
   \<exists>new. as' = as @ new \<and>
     mset (map appointment new) \<subseteq># mset appts \<and>
     (\<forall>x \<in> set new. \<exists>d. (assigned_to x, d) \<in> set reps \<and>
        productid (appointment x) \<in> set (scope d)) \<and>
     (\<forall>r. ra' r = ra r @ map appointment [x \<leftarrow> new. assigned_to x = r]) \<and>
     (b \<longrightarrow> distinct (map assigned_to new) \<and> (\<forall>x \<in> set new. ra (assigned_to x) = []))"
proof (induction appts arbitrary: ra as st)
  case Nil
  then show ?case by simp
next
  case (Cons a rest)
  from Cons.prems obtain ra1 as1 st1 where
    body: "assign_body env b reps a (ra, as, st) = Inr (ra1, as1, st1)"
    and loop: "assign_loop env b reps rest (ra1, as1, st1) = Inr (ra', as', st')"
    by (auto split: sum.splits)
  from assign_body_new [OF body] obtain n1 where n1: "as1 = as @ n1"
    "mset (map appointment n1) \<subseteq># {#a#}"
    "\<forall>x \<in> set n1. \<exists>d. (assigned_to x, d) \<in> set reps \<and>
        productid (appointment x) \<in> set (scope d)"
    "\<forall>r. ra1 r = ra r @ map appointment [x \<leftarrow> n1. assigned_to x = r]"
    "b \<longrightarrow> distinct (map assigned_to n1) \<and> (\<forall>x \<in> set n1. ra (assigned_to x) = [])"
    by blast
  from Cons.IH [OF loop] obtain n2 where n2: "as' = as1 @ n2"
    "mset (map appointment n2) \<subseteq># mset rest"
    "\<forall>x \<in> set n2. \<exists>d. (assigned_to x, d) \<in> set reps \<and>
        productid (appointment x) \<in> set (scope d)"
    "\<forall>r. ra' r = ra1 r @ map appointment [x \<leftarrow> n2. assigned_to x = r]"
    "b \<longrightarrow> distinct (map assigned_to n2) \<and> (\<forall>x \<in> set n2. ra1 (assigned_to x) = [])"
    by blast
  have 1: "as' = as @ (n1 @ n2)" using n1(1) n2(1) by simp
  have 2: "mset (map appointment (n1 @ n2)) \<subseteq># mset (a # rest)"
    using subset_mset.add_mono [OF n1(2) n2(2)] by simp
  have 3: "\<forall>x \<in> set (n1 @ n2). \<exists>d. (assigned_to x, d) \<in> set reps \<and>
        productid (appointment x) \<in> set (scope d)"
    using n1(3) n2(3) by auto
  have 4: "\<forall>r. ra' r = ra r @ map appointment [x \<leftarrow> n1 @ n2. assigned_to x = r]"
    using n1(4) n2(4) by simp
  have 5: "b \<longrightarrow> distinct (map assigned_to (n1 @ n2)) \<and>
      (\<forall>x \<in> set (n1 @ n2). ra (assigned_to x) = [])"
  proof
    assume b
    with n1(5) n2(5) have d1: "distinct (map assigned_to n1)"
      and i1: "\<forall>x \<in> set n1. ra (assigned_to x) = []"
      and d2: "distinct (map assigned_to n2)"
      and i2: "\<forall>x \<in> set n2. ra1 (assigned_to x) = []"
      by auto
    from i2 n1(4) have i2': "\<forall>x \<in> set n2. ra (assigned_to x) = [] \<and>
        [y \<leftarrow> n1. assigned_to y = assigned_to x] = []"
      by simp
    then have "\<forall>x \<in> set n2. \<forall>y \<in> set n1. assigned_to y \<noteq> assigned_to x"
      by (auto simp: filter_empty_conv)
    then have "assigned_to ` set n1 \<inter> assigned_to ` set n2 = {}" by auto
    with d1 d2 i1 i2' show "distinct (map assigned_to (n1 @ n2)) \<and>
      (\<forall>x \<in> set (n1 @ n2). ra (assigned_to x) = [])"
      by auto
  qed
  from 1 2 3 4 5 show ?case by blast
qed


section \<open>The cache during a call\<close>




section \<open>The adjustment against double booking\<close>

lemma remove_extras_result:
  "remove_extras extras (as, un) = Inr (as', un') \<Longrightarrow>
   mset extras \<subseteq># mset as \<and> mset as' = mset as - mset extras \<and>
   un' = un @ map appointment extras"
proof (induction extras arbitrary: as un)
  case Nil
  then show ?case by simp
next
  case (Cons x extras)
  from Cons.prems have x: "x \<in> set as"
    and rest: "remove_extras extras (remove1 x as, un @ [appointment x]) = Inr (as', un')"
    by (auto split: if_splits)
  from Cons.IH [OF rest] have ih: "mset extras \<subseteq># mset (remove1 x as)"
    "mset as' = mset (remove1 x as) - mset extras"
    "un' = (un @ [appointment x]) @ map appointment extras"
    by auto
  from ih(1) x have "mset (x # extras) \<subseteq># mset as"
    by (simp add: insert_subset_eq_iff)
  moreover from ih(2) have "mset as' = mset as - mset (x # extras)"
    by simp
  ultimately show ?case using ih(3) by simp
qed


lemma adjust_rep:
  assumes sorted: "sort_key drive_time (booked rep as) = kept # extras"
    and removed: "remove_extras extras (as, un) = Inr (as', un')"
  shows "mset as' \<subseteq># mset as"
    and "length (booked rep as') = 1"
    and "rep' \<noteq> rep \<Longrightarrow> length (booked rep' as') = length (booked rep' as)"
    and "mset (map appointment as') + mset un' = mset (map appointment as) + mset un"
proof -
  from remove_extras_result [OF removed]
  have sub: "mset extras \<subseteq># mset as" and diff: "mset as' = mset as - mset extras"
    and un: "un' = un @ map appointment extras"
    by auto
  from diff show "mset as' \<subseteq># mset as" by simp
  have all: "mset (booked rep as) = add_mset kept (mset extras)"
    using arg_cong [OF sorted, of mset] by simp
  from arg_cong [OF all, of set_mset]
  have "set (booked rep as) = insert kept (set extras)" by simp
  then have "set extras \<subseteq> set (booked rep as)" by blast
  then have extras_rep: "\<forall>x \<in> set extras. assigned_to x = rep" by auto
  then have f1: "filter_mset (\<lambda>x. assigned_to x = rep) (mset extras) = mset extras"
    by (induction extras) auto
  have "mset (booked rep as') = mset (booked rep as) - mset extras"
    using diff f1 by simp
  with all have "mset (booked rep as') = {#kept#}" by simp
  from arg_cong [OF this, of size] show "length (booked rep as') = 1"
    by (simp only: size_mset size_single)
  show "length (booked rep' as') = length (booked rep' as)" if "rep' \<noteq> rep"
  proof -
    have "mset (booked rep' as') =
        filter_mset (\<lambda>x. assigned_to x = rep') (mset as) -
        filter_mset (\<lambda>x. assigned_to x = rep') (mset extras)"
      using diff by simp
    also have "filter_mset (\<lambda>x. assigned_to x = rep') (mset extras) = {#}"
      using extras_rep that by auto
    finally have "mset (booked rep' as') = mset (booked rep' as)" by simp
    from arg_cong [OF this, of size] show ?thesis
      by (simp only: size_mset)
  qed
  have "mset as = mset as' + mset extras"
    using diff sub by simp
  from arg_cong [OF this, of "image_mset appointment"]
  have "mset (map appointment as) = mset (map appointment as') + mset (map appointment extras)"
    by simp
  with un show "mset (map appointment as') + mset un' = mset (map appointment as) + mset un"
    by simp
qed


lemma booked_mono:
  assumes "mset as' \<subseteq># mset as"
  shows "length (booked rep as') \<le> length (booked rep as)"
proof -
  from multiset_filter_mono [OF assms, of "\<lambda>x. assigned_to x = rep"]
  have "mset (booked rep as') \<subseteq># mset (booked rep as)" by simp
  from size_mset_mono [OF this] show ?thesis
    by (simp only: size_mset)
qed

lemma adjust_loop_result:
  "adjust_loop ra keys (as, un) = Inr (as', un') \<Longrightarrow>
   \<forall>r. length (booked r as) \<le> length (ra r) \<Longrightarrow>
   mset as' \<subseteq># mset as \<and> (\<forall>r \<in> set keys. length (booked r as') \<le> 1) \<and>
   mset (map appointment as') + mset un' = mset (map appointment as) + mset un"
proof (induction keys arbitrary: as un)
  case Nil
  then show ?case by simp
next
  case (Cons rep keys)
  show ?case
  proof (cases "length (ra rep) > 1")
    case False
    with Cons.prems have "adjust_loop ra keys (as, un) = Inr (as', un')" by simp
    from Cons.IH [OF this Cons.prems(2)]
    have ih: "mset as' \<subseteq># mset as" "\<forall>r \<in> set keys. length (booked r as') \<le> 1"
      "mset (map appointment as') + mset un' = mset (map appointment as) + mset un"
      by auto
    from booked_mono [OF ih(1), of rep] Cons.prems(2) False
    have "length (booked rep as') \<le> 1"
      by (meson le_trans not_less)
    with ih show ?thesis by simp
  next
    case True
    with Cons.prems(1) obtain kept extras as1 un1 where
      sorted: "sort_key drive_time (booked rep as) = kept # extras"
      and removed: "remove_extras extras (as, un) = Inr (as1, un1)"
      and rest: "adjust_loop ra keys (as1, un1) = Inr (as', un')"
      by (auto split: list.splits sum.splits)
    note step = adjust_rep [OF sorted removed]
    have pre: "\<forall>r. length (booked r as1) \<le> length (ra r)"
      using booked_mono [OF step(1)] Cons.prems(2) by (meson le_trans)
    from Cons.IH [OF rest pre]
    have ih: "mset as' \<subseteq># mset as1" "\<forall>r \<in> set keys. length (booked r as') \<le> 1"
      "mset (map appointment as') + mset un' = mset (map appointment as1) + mset un1"
      by auto
    from step(2) booked_mono [OF ih(1), of rep] have "length (booked rep as') \<le> 1"
      by arith
    moreover from ih(1) step(1) have "mset as' \<subseteq># mset as" by (rule subset_mset.order_trans)
    ultimately show ?thesis using ih(2,3) step(4) by simp
  qed
qed


lemma at_most_one_distinct:
  "\<forall>r. length (booked r as) \<le> 1 \<Longrightarrow> distinct (map assigned_to as)"
proof (induction as)
  case Nil
  then show ?case by simp
next
  case (Cons x as)
  have "\<forall>r. length (booked r as) \<le> 1"
  proof
    fix r
    from Cons.prems have "length (booked r (x # as)) \<le> 1" by blast
    then show "length (booked r as) \<le> 1" by (simp split: if_splits)
  qed
  from Cons.IH [OF this] have d: "distinct (map assigned_to as)" .
  have "assigned_to x \<notin> assigned_to ` set as"
  proof
    assume "assigned_to x \<in> assigned_to ` set as"
    then obtain y where y: "y \<in> set as" "assigned_to y = assigned_to x" by auto
    then have "length (booked (assigned_to x) as) \<noteq> 0"
      by (auto simp: filter_empty_conv)
    moreover from Cons.prems have "length (booked (assigned_to x) (x # as)) \<le> 1" by blast
    ultimately show False by simp
  qed
  with d show ?case by simp
qed

lemma distinct_mset_mono:
  assumes "mset xs \<subseteq># mset ys" and "distinct ys"
  shows "distinct xs"
proof -
  have "count (mset xs) a = (if a \<in> set xs then 1 else 0)" for a
  proof (cases "a \<in> set xs")
    case True
    then have "count (mset xs) a \<noteq> 0" by simp
    moreover from assms(2) have "count (mset ys) a \<le> 1"
      by (simp add: distinct_count_atmost_1)
    moreover from mset_subset_eq_count [OF assms(1)]
    have "count (mset xs) a \<le> count (mset ys) a" .
    ultimately have "count (mset xs) a = 1" by linarith
    with True show ?thesis by simp
  next
    case False
    then show ?thesis by (simp add: count_mset_0_iff)
  qed
  then show ?thesis by (simp add: distinct_count_atmost_1)
qed

section \<open>The list the assignment function returns\<close>

lemma assign_to_closest_rep_steps:
  assumes "assign_to_closest_rep env appointments reps start end st =
      Inr (final, appointments', st')"
  obtains appts ra as1 st1 as2 un ra3 where
    "convert_apptdates env appointments = Inr appts"
    "assign_loop env False reps (filtered_appointments start end appts)
       (\<lambda>rep. [], [], st\<lparr>drive_time_cache := Map.empty\<rparr>) = Inr (ra, as1, st1)"
    "adjust_loop ra (map fst reps) (as1, []) = Inr (as2, un)"
    "assign_loop env True reps un (ra, as2, st1) = Inr (ra3, final, st')"
    "appointments' = map stored appts"
  using assms
  by (auto simp: assign_to_closest_rep_def split: sum.splits prod.splits)

lemma convert_apptdates_custnumber:
  "convert_apptdates env appointments = Inr appts \<Longrightarrow>
   map custnumber appts = map custnumber appointments"
proof (induction appointments arbitrary: appts)
  case Nil
  then show ?case by simp
next
  case (Cons a rest)
  then show ?case by (auto split: sum.splits)
qed

text \<open>What the three steps establish together.\<close>

lemma assign_to_closest_rep_final:
  assumes run: "assign_to_closest_rep env appointments reps start end st =
      Inr (final, appointments', st')"
  obtains appts as2 new3 where
    "convert_apptdates env appointments = Inr appts"
    "final = as2 @ new3"
    "\<forall>x \<in> set final. \<exists>d. (assigned_to x, d) \<in> set reps \<and>
        productid (appointment x) \<in> set (scope d)"
    "distinct (map assigned_to final)"
    "mset (map appointment final) \<subseteq># mset (filtered_appointments start end appts)"
proof -
  from run obtain appts ra as1 st1 as2 un ra3 where
    conv: "convert_apptdates env appointments = Inr appts"
    and s1: "assign_loop env False reps (filtered_appointments start end appts)
       (\<lambda>rep. [], [], st\<lparr>drive_time_cache := Map.empty\<rparr>) = Inr (ra, as1, st1)"
    and s2: "adjust_loop ra (map fst reps) (as1, []) = Inr (as2, un)"
    and s3: "assign_loop env True reps un (ra, as2, st1) = Inr (ra3, final, st')"
    by (rule assign_to_closest_rep_steps)
  from assign_loop_new [OF s1] have
    a1: "mset (map appointment as1) \<subseteq># mset (filtered_appointments start end appts)"
    and e1: "\<forall>x \<in> set as1. \<exists>d. (assigned_to x, d) \<in> set reps \<and>
        productid (appointment x) \<in> set (scope d)"
    and ra: "\<forall>r. ra r = map appointment (booked r as1)"
    by auto
  from ra have len: "\<forall>r. length (booked r as1) \<le> length (ra r)" by simp
  from adjust_loop_result [OF s2 len] have
    sub2: "mset as2 \<subseteq># mset as1"
    and one2: "\<forall>r \<in> set (map fst reps). length (booked r as2) \<le> 1"
    and bal: "mset (map appointment as2) + mset un = mset (map appointment as1)"
    by auto
  from assign_loop_new [OF s3] obtain new3 where
    fin: "final = as2 @ new3"
    and a3: "mset (map appointment new3) \<subseteq># mset un"
    and e3: "\<forall>x \<in> set new3. \<exists>d. (assigned_to x, d) \<in> set reps \<and>
        productid (appointment x) \<in> set (scope d)"
    and d3: "distinct (map assigned_to new3)"
    and idle: "\<forall>x \<in> set new3. ra (assigned_to x) = []"
    by auto
  from sub2 have set2: "set as2 \<subseteq> set as1"
    by (metis set_mset_mono set_mset_mset)
  with e1 e3 fin have elig: "\<forall>x \<in> set final. \<exists>d. (assigned_to x, d) \<in> set reps \<and>
        productid (appointment x) \<in> set (scope d)"
    by auto
  have "\<forall>r. length (booked r as2) \<le> 1"
  proof
    fix r
    show "length (booked r as2) \<le> 1"
    proof (cases "r \<in> set (map fst reps)")
      case True
      with one2 show ?thesis by blast
    next
      case False
      with e1 have "booked r as1 = []"
        by (force simp: filter_empty_conv)
      with booked_mono [OF sub2, of r] show ?thesis by simp
    qed
  qed
  then have d2: "distinct (map assigned_to as2)" by (rule at_most_one_distinct)
  have "assigned_to ` set as2 \<inter> assigned_to ` set new3 = {}"
  proof (rule ccontr)
    assume "assigned_to ` set as2 \<inter> assigned_to ` set new3 \<noteq> {}"
    then obtain x y where x: "x \<in> set as2" and y: "y \<in> set new3"
      and same: "assigned_to x = assigned_to y"
      by auto
    from idle y ra have "booked (assigned_to y) as1 = []" by simp
    moreover from x set2 same have "x \<in> set (booked (assigned_to y) as1)" by auto
    ultimately show False by simp
  qed
  with d2 d3 fin have dist: "distinct (map assigned_to final)" by simp
  have "mset (map appointment final) = mset (map appointment as2) + mset (map appointment new3)"
    by (simp add: fin)
  also have "\<dots> \<subseteq># mset (map appointment as2) + mset un"
    using a3 by simp
  also have "\<dots> = mset (map appointment as1)" by (rule bal)
  finally have "mset (map appointment final) \<subseteq># mset (filtered_appointments start end appts)"
    using a1 by (rule subset_mset.order_trans)
  with that conv fin elig dist show thesis by blast
qed

text \<open>
  C1, as amended. The list a call of the assignment function returns names no
  representative twice, whatever the input. It holds no appointment twice when the
  appointments of the window, as the loops read them, are pairwise distinct records; and
  it holds no customer number twice when no customer number occurs twice among the
  appointments given.
\<close>

theorem final_assignments_injective:
  assumes "assign_to_closest_rep env appointments sales_reps start end st =
      Inr (final, appointments', st')"
    and "convert_apptdates env appointments = Inr appts"
  shows "distinct (map assigned_to final) \<and>
    (distinct (filtered_appointments start end appts) \<longrightarrow>
       distinct (map appointment final)) \<and>
    (distinct (map custnumber appointments) \<longrightarrow>
       distinct (map (\<lambda>x. custnumber (appointment x)) final))"
proof -
  from assms(1) obtain appts0 where
    conv: "convert_apptdates env appointments = Inr appts0"
    and dist: "distinct (map assigned_to final)"
    and sub0: "mset (map appointment final) \<subseteq># mset (filtered_appointments start end appts0)"
    by (rule assign_to_closest_rep_final)
  from conv assms(2) have same: "appts0 = appts" by simp
  note sub = sub0 [unfolded same]
  have records: "distinct (map appointment final)"
    if "distinct (filtered_appointments start end appts)"
    using sub that by (rule distinct_mset_mono)
  have "mset (filtered_appointments start end appts) \<subseteq># mset appts"
    by (simp add: filtered_appointments_def)
  with sub have "mset (map appointment final) \<subseteq># mset appts"
    by (rule subset_mset.order_trans)
  from image_mset_subseteq_mono [OF this, of custnumber]
  have cust: "mset (map (\<lambda>x. custnumber (appointment x)) final) \<subseteq>#
      mset (map custnumber appointments)"
    by (simp add: convert_apptdates_custnumber [OF assms(2), symmetric]
        image_mset.compositionality comp_def)
  have numbers: "distinct (map (\<lambda>x. custnumber (appointment x)) final)"
    if "distinct (map custnumber appointments)"
    using cust that by (rule distinct_mset_mono)
  show ?thesis
  proof (intro conjI impI)
    show "distinct (map assigned_to final)" by (rule dist)
    show "distinct (map appointment final)"
      if "distinct (filtered_appointments start end appts)"
      using that by (rule records)
    show "distinct (map (\<lambda>x. custnumber (appointment x)) final)"
      if "distinct (map custnumber appointments)"
      using that by (rule numbers)
  qed
qed

theorem final_assignments_injective_witness:
  "assignments_of
     (assign_to_closest_rep (example_env always_ok) [appt1, appt2] two_reps
        1734685200000000 1734692400000000 st_empty) = Some [assigned1, assigned2] \<and>
   convert_apptdates (example_env always_ok) [appt1, appt2] = Inr [conv1, conv2] \<and>
   distinct (filtered_appointments 1734685200000000 1734692400000000 [conv1, conv2]) \<and>
   distinct (map custnumber [appt1, appt2]) \<and>
   distinct (map assigned_to [assigned1, assigned2]) \<and>
   distinct (map appointment [assigned1, assigned2]) \<and>
   distinct (map (\<lambda>x. custnumber (appointment x)) [assigned1, assigned2])"
proof -
  have run: "\<exists>appointments' st'.
      assign_to_closest_rep (example_env always_ok) [appt1, appt2] two_reps
        1734685200000000 1734692400000000 st_empty =
      Inr ([assigned1, assigned2], appointments', st')"
    by (simp add: assign_to_closest_rep_def assign_body_def to_datetime_def
        filtered_appointments_def get_drive_time_def cache_key_def example_env_def
        always_ok_def ok_response_def st_empty_def appt1_def appt2_def two_reps_def
        assigned1_def assigned2_def)
  have dates: "convert_apptdates (example_env always_ok) [appt1, appt2] = Inr [conv1, conv2]"
    by (simp add: to_datetime_def appt1_def appt2_def conv1_def conv2_def)
  have records: "distinct (filtered_appointments 1734685200000000 1734692400000000
      [conv1, conv2])"
    by (simp add: filtered_appointments_def conv1_def conv2_def)
  have ids: "distinct (map custnumber [appt1, appt2])"
    by (simp add: appt1_def appt2_def)
  from run obtain appointments' st' where
    call: "assign_to_closest_rep (example_env always_ok) [appt1, appt2] two_reps
        1734685200000000 1734692400000000 st_empty =
      Inr ([assigned1, assigned2], appointments', st')"
    by blast
  note inst = final_assignments_injective [OF call dates]
  from inst have 1: "distinct (map assigned_to [assigned1, assigned2])"
    by (rule conjunct1)
  from mp [OF inst [THEN conjunct2, THEN conjunct1] records]
  have 2: "distinct (map appointment [assigned1, assigned2])" .
  from mp [OF inst [THEN conjunct2, THEN conjunct2] ids]
  have 3: "distinct (map (\<lambda>x. custnumber (appointment x)) [assigned1, assigned2])" .
  from call have 0: "assignments_of
     (assign_to_closest_rep (example_env always_ok) [appt1, appt2] two_reps
        1734685200000000 1734692400000000 st_empty) = Some [assigned1, assigned2]"
    by (simp add: assignments_of_def)
  from 0 dates records ids 1 2 3 show ?thesis by (intro conjI)
qed

text \<open>
  C1 as stated fails: the same row twice in the input. Both copies go to the first
  representative in the initial pass; step 2 frees one, which the reassignment pass gives
  to the second representative, so the returned list holds the appointment twice.
\<close>

theorem duplicate_rows_counterexample:
  "assignments_of
     (assign_to_closest_rep (example_env always_ok) [appt1, appt1] two_reps
        1734685200000000 1734692400000000 st_empty) = Some [assigned1, assigned1_bob] \<and>
   appointment assigned1 = appointment assigned1_bob \<and>
   assigned_to assigned1 \<noteq> assigned_to assigned1_bob \<and>
   \<not> distinct (map appointment [assigned1, assigned1_bob])"
  by (simp add: assignments_of_def assign_to_closest_rep_def assign_body_def to_datetime_def
      filtered_appointments_def get_drive_time_def cache_key_def example_env_def
      always_ok_def ok_response_def st_empty_def appt1_def two_reps_def
      assigned1_def assigned1_bob_def)

text \<open>
  C2. Every assignment of the returned list, whether made in the initial pass or in the
  reassignment pass, names a representative of the roster whose scope holds the product
  of the appointment. The roster is not changed during the call.
\<close>

theorem final_assignments_eligible:
  assumes "assign_to_closest_rep env appointments sales_reps start end st =
      Inr (final, appointments', st')"
  shows "\<forall>x \<in> set final. \<exists>details. (assigned_to x, details) \<in> set sales_reps \<and>
      productid (appointment x) \<in> set (scope details)"
  using assms by (rule assign_to_closest_rep_final)

theorem final_assignments_eligible_witness:
  "assignments_of
     (assign_to_closest_rep (example_env always_ok) [appt1, appt2] two_reps
        1734685200000000 1734692400000000 st_empty) = Some [assigned1, assigned2] \<and>
   (\<exists>details. (assigned_to assigned2, details) \<in> set two_reps \<and>
      productid (appointment assigned2) \<in> set (scope details))"
proof -
  have run: "\<exists>appointments' st'.
      assign_to_closest_rep (example_env always_ok) [appt1, appt2] two_reps
        1734685200000000 1734692400000000 st_empty =
      Inr ([assigned1, assigned2], appointments', st')"
    by (simp add: assign_to_closest_rep_def assign_body_def to_datetime_def
        filtered_appointments_def get_drive_time_def cache_key_def example_env_def
        always_ok_def ok_response_def st_empty_def appt1_def appt2_def two_reps_def
        assigned1_def assigned2_def)
  then obtain appointments' st' where
    "assign_to_closest_rep (example_env always_ok) [appt1, appt2] two_reps
        1734685200000000 1734692400000000 st_empty =
      Inr ([assigned1, assigned2], appointments', st')"
    by blast
  from this final_assignments_eligible [OF this] show ?thesis
    by (simp add: assignments_of_def)
qed

section \<open>The initial pass chooses the first closest representative\<close>

lemma closest_rep_loop_first_minimal:
  assumes "closest_rep_loop env cond z reps None st = Inr (Some (r, m), st')"
  shows "\<exists>pre post. rep_costs env cond z reps st = pre @ (r, Some m) # post \<and>
      map fst (pre @ (r, Some m) # post) = map fst [(rep, d) \<leftarrow> reps. cond rep d] \<and>
      (\<forall>(r', t) \<in> set pre. \<forall>v. t = Some v \<longrightarrow> m < v) \<and>
      (\<forall>(r', t) \<in> set post. \<forall>v. t = Some v \<longrightarrow> m \<le> v)"
proof -
  from closest_rep_loop_pick [OF assms]
  have "pick (rep_costs env cond z reps st) None = Some (r, m)" by simp
  from pick_first_minimal [OF this] obtain pre post where
    "rep_costs env cond z reps st = pre @ (r, Some m) # post"
    "\<forall>(r', t) \<in> set pre. \<forall>v. t = Some v \<longrightarrow> m < v"
    "\<forall>(r', t) \<in> set post. \<forall>v. t = Some v \<longrightarrow> m \<le> v"
    by blast
  with closest_rep_loop_roster [OF assms] show ?thesis by auto
qed

lemma assign_loop_first_closest:
  "assign_loop env False reps appts (ra0, as0, st0) = Inr (ra, as, st) \<Longrightarrow>
   \<exists>new. as = as0 @ new \<and>
     (\<forall>x \<in> set new. \<exists>before after ra1 as1 st1 pre post.
        appts = before @ appointment x # after \<and>
        assign_loop env False reps before (ra0, as0, st0) = Inr (ra1, as1, st1) \<and>
        rep_costs env (\<lambda>rep details. productid (appointment x) \<in> set (scope details))
          (Zip (appointment x)) reps st1 = pre @ (assigned_to x, Some (drive_time x)) # post \<and>
        map fst (pre @ (assigned_to x, Some (drive_time x)) # post) =
          map fst [(rep, details) \<leftarrow> reps. productid (appointment x) \<in> set (scope details)] \<and>
        (\<forall>(rep, t) \<in> set pre. \<forall>v. t = Some v \<longrightarrow> drive_time x < v) \<and>
        (\<forall>(rep, t) \<in> set post. \<forall>v. t = Some v \<longrightarrow> drive_time x \<le> v))"
proof (induction appts arbitrary: ra0 as0 st0)
  case Nil
  then show ?case by simp
next
  case (Cons a rest)
  let ?P = "\<lambda>appts acc x. \<exists>before after ra1 as1 st1 pre post.
        appts = before @ appointment x # after \<and>
        assign_loop env False reps before acc = Inr (ra1, as1, st1) \<and>
        rep_costs env (\<lambda>rep details. productid (appointment x) \<in> set (scope details))
          (Zip (appointment x)) reps st1 = pre @ (assigned_to x, Some (drive_time x)) # post \<and>
        map fst (pre @ (assigned_to x, Some (drive_time x)) # post) =
          map fst [(rep, details) \<leftarrow> reps. productid (appointment x) \<in> set (scope details)] \<and>
        (\<forall>(rep, t) \<in> set pre. \<forall>v. t = Some v \<longrightarrow> drive_time x < v) \<and>
        (\<forall>(rep, t) \<in> set post. \<forall>v. t = Some v \<longrightarrow> drive_time x \<le> v)"
  from Cons.prems obtain ra1 as1 st1 where
    body: "assign_body env False reps a (ra0, as0, st0) = Inr (ra1, as1, st1)"
    and loop: "assign_loop env False reps rest (ra1, as1, st1) = Inr (ra, as, st)"
    by (auto split: sum.splits)
  from Cons.IH [OF loop] obtain new where new: "as = as1 @ new"
    and ih: "\<forall>x \<in> set new. ?P rest (ra1, as1, st1) x"
    by (elim exE conjE) (rule that; assumption)
  have later: "?P (a # rest) (ra0, as0, st0) x" if "x \<in> set new" for x
  proof -
    from ih that have "?P rest (ra1, as1, st1) x" by (rule bspec)
    then obtain before after ra2 as2 st2 pre post where
      p: "rest = before @ appointment x # after"
      "assign_loop env False reps before (ra1, as1, st1) = Inr (ra2, as2, st2)"
      "rep_costs env (\<lambda>rep details. productid (appointment x) \<in> set (scope details))
          (Zip (appointment x)) reps st2 = pre @ (assigned_to x, Some (drive_time x)) # post"
      "map fst (pre @ (assigned_to x, Some (drive_time x)) # post) =
          map fst [(rep, details) \<leftarrow> reps. productid (appointment x) \<in> set (scope details)]"
      "\<forall>(rep, t) \<in> set pre. \<forall>v. t = Some v \<longrightarrow> drive_time x < v"
      "\<forall>(rep, t) \<in> set post. \<forall>v. t = Some v \<longrightarrow> drive_time x \<le> v"
      by (elim exE conjE) (rule that; assumption)
    have 1: "a # rest = (a # before) @ appointment x # after" using p(1) by simp
    have 2: "assign_loop env False reps (a # before) (ra0, as0, st0) = Inr (ra2, as2, st2)"
      using body p(2) by simp
    from 1 2 p(3-6) show ?thesis
      by (intro exI [of _ "a # before"] exI [of _ after] exI [of _ ra2] exI [of _ as2]
          exI [of _ st2] exI [of _ pre] exI [of _ post] conjI) assumption+
  qed
  from body show ?case
  proof (cases rule: assign_body_cases)
    case (unassigned best st')
    have "as = as0 @ new" using new unassigned(4) by simp
    moreover have "\<forall>x \<in> set new. ?P (a # rest) (ra0, as0, st0) x"
      using later by (intro ballI)
    ultimately show ?thesis by (intro exI [of _ new] conjI)
  next
    case (assigned r m)
    let ?x = "\<lparr>appointment = a, assigned_to = r, drive_time = m\<rparr>"
    from assigned(1) have search: "closest_rep_loop env
        (\<lambda>rep details. productid a \<in> set (scope details)) (Zip a) reps None st0 =
        Inr (Some (r, m), st1)"
      by simp
    from closest_rep_loop_first_minimal [OF search] obtain pre post where
      c: "rep_costs env (\<lambda>rep details. productid a \<in> set (scope details)) (Zip a) reps st0 =
          pre @ (r, Some m) # post"
      "map fst (pre @ (r, Some m) # post) =
          map fst [(rep, details) \<leftarrow> reps. productid a \<in> set (scope details)]"
      "\<forall>(rep, t) \<in> set pre. \<forall>v. t = Some v \<longrightarrow> m < v"
      "\<forall>(rep, t) \<in> set post. \<forall>v. t = Some v \<longrightarrow> m \<le> v"
      by blast
    have 1: "a # rest = [] @ appointment ?x # rest" by simp
    have 2: "assign_loop env False reps [] (ra0, as0, st0) = Inr (ra0, as0, st0)" by simp
    have sel: "appointment ?x = a" "assigned_to ?x = r" "drive_time ?x = m" by simp_all
    have first: "?P (a # rest) (ra0, as0, st0) ?x"
      unfolding sel using 1 [unfolded sel] 2 c
      by (intro exI [of _ "[]"] exI [of _ rest] exI [of _ ra0] exI [of _ as0]
          exI [of _ st0] exI [of _ pre] exI [of _ post] conjI) assumption+
    have "as = as0 @ (?x # new)" using new assigned(4) by simp
    moreover have "\<forall>x \<in> set (?x # new). ?P (a # rest) (ra0, as0, st0) x"
    proof
      fix x assume "x \<in> set (?x # new)"
      then consider "x = ?x" | "x \<in> set new" by auto
      then show "?P (a # rest) (ra0, as0, st0) x"
      proof cases
        case 1
        show ?thesis unfolding 1 by (rule first)
      next
        case 2
        then show ?thesis by (rule later)
      qed
    qed
    ultimately show ?thesis by (intro exI [of _ "?x # new"] conjI)
  qed
qed

text \<open>
  C3. Take a candidate assignment of the initial pass, and the state in which the turn of
  its appointment began (the state the pass reaches on the appointments before it). The
  lookups made in that turn, one for every representative of the roster whose scope holds
  the product, in the order of the roster, contain the chosen representative with the
  drive time recorded in the candidate; every known drive time looked up before it is
  strictly greater, and every known drive time looked up after it is greater or equal. So
  the chosen drive time is a minimum of the known ones, and among equal minima the first
  of the roster is chosen.
\<close>

theorem initial_pass_first_closest:
  assumes "assign_loop env False sales_reps appts (\<lambda>rep. [], [], st0) =
      Inr (rep_appointments, candidates, st)"
    and "x \<in> set candidates"
  shows "\<exists>before after ra1 as1 st1 pre post.
      appts = before @ appointment x # after \<and>
      assign_loop env False sales_reps before (\<lambda>rep. [], [], st0) = Inr (ra1, as1, st1) \<and>
      rep_costs env (\<lambda>rep details. productid (appointment x) \<in> set (scope details))
        (Zip (appointment x)) sales_reps st1 =
        pre @ (assigned_to x, Some (drive_time x)) # post \<and>
      map fst (pre @ (assigned_to x, Some (drive_time x)) # post) =
        map fst [(rep, details) \<leftarrow> sales_reps.
                   productid (appointment x) \<in> set (scope details)] \<and>
      (\<forall>(rep, t) \<in> set pre. \<forall>v. t = Some v \<longrightarrow> drive_time x < v) \<and>
      (\<forall>(rep, t) \<in> set post. \<forall>v. t = Some v \<longrightarrow> drive_time x \<le> v)"
proof -
  from assign_loop_first_closest [OF assms(1)] have "\<forall>x \<in> set candidates.
      \<exists>before after ra1 as1 st1 pre post.
      appts = before @ appointment x # after \<and>
      assign_loop env False sales_reps before (\<lambda>rep. [], [], st0) = Inr (ra1, as1, st1) \<and>
      rep_costs env (\<lambda>rep details. productid (appointment x) \<in> set (scope details))
        (Zip (appointment x)) sales_reps st1 =
        pre @ (assigned_to x, Some (drive_time x)) # post \<and>
      map fst (pre @ (assigned_to x, Some (drive_time x)) # post) =
        map fst [(rep, details) \<leftarrow> sales_reps.
                   productid (appointment x) \<in> set (scope details)] \<and>
      (\<forall>(rep, t) \<in> set pre. \<forall>v. t = Some v \<longrightarrow> drive_time x < v) \<and>
      (\<forall>(rep, t) \<in> set post. \<forall>v. t = Some v \<longrightarrow> drive_time x \<le> v)"
    by (elim exE conjE) simp
  from this assms(2) show ?thesis by (rule bspec)
qed

theorem initial_pass_first_closest_witness:
  "candidates_of
     (assign_loop (example_env always_ok) False tied_reps [conv1, conv2]
        (\<lambda>rep. [], [], st_empty)) = Some [candidate1, candidate2] \<and>
   (\<exists>before after ra1 as1 st1 pre post.
      [conv1, conv2] = before @ appointment candidate2 # after \<and>
      assign_loop (example_env always_ok) False tied_reps before (\<lambda>rep. [], [], st_empty) =
        Inr (ra1, as1, st1) \<and>
      rep_costs (example_env always_ok)
        (\<lambda>rep details. productid (appointment candidate2) \<in> set (scope details))
        (Zip (appointment candidate2)) tied_reps st1 =
        pre @ (assigned_to candidate2, Some (drive_time candidate2)) # post \<and>
      map fst (pre @ (assigned_to candidate2, Some (drive_time candidate2)) # post) =
        [''Ann'', ''Bob''] \<and>
      (\<forall>(rep, t) \<in> set pre. \<forall>v. t = Some v \<longrightarrow> drive_time candidate2 < v) \<and>
      (\<forall>(rep, t) \<in> set post. \<forall>v. t = Some v \<longrightarrow> drive_time candidate2 \<le> v))"
proof -
  have run: "\<exists>ra st. assign_loop (example_env always_ok) False tied_reps [conv1, conv2]
        (\<lambda>rep. [], [], st_empty) = Inr (ra, [candidate1, candidate2], st)"
    by (simp add: assign_body_def get_drive_time_def cache_key_def example_env_def
        always_ok_def ok_response_def st_empty_def conv1_def conv2_def tied_reps_def
        candidate1_def candidate2_def)
  then obtain ra st where pass: "assign_loop (example_env always_ok) False tied_reps
        [conv1, conv2] (\<lambda>rep. [], [], st_empty) = Inr (ra, [candidate1, candidate2], st)"
    by blast
  have eligible: "map fst [(rep, details) \<leftarrow> tied_reps.
      productid (appointment candidate2) \<in> set (scope details)] = [''Ann'', ''Bob'']"
    by (simp add: tied_reps_def candidate2_def conv2_def)
  have "candidate2 \<in> set [candidate1, candidate2]" by simp
  from initial_pass_first_closest [OF pass this] pass show ?thesis
    unfolding eligible by (simp only: candidates_of_def sum.case prod.case simp_thms)
qed

section \<open>The roster after a window\<close>

lemma group_by_rep_keys:
  "distinct (map fst acc) \<Longrightarrow> distinct (map fst (group_by_rep as acc))"
  by (induction as arbitrary: acc) (simp_all add: distinct_update)

lemma group_by_rep_lookup:
  "map_of (group_by_rep as acc) r =
     (if booked r as = [] then map_of acc r
      else Some ((case map_of acc r of None \<Rightarrow> [] | Some l \<Rightarrow> l) @
                 map appointment (booked r as)))"
proof (induction as arbitrary: acc)
  case Nil
  then show ?case by simp
next
  case (Cons x as)
  show ?case
    by (simp add: Cons.IH update_conv' split: option.splits)
qed

lemma group_by_rep_empty:
  "map_of (group_by_rep as []) r =
     (if booked r as = [] then None else Some (map appointment (booked r as)))"
  by (simp add: group_by_rep_lookup)

lemma update_present:
  "distinct (map fst al) \<Longrightarrow> k \<in> fst ` set al \<Longrightarrow>
   AList.update k v al = map (\<lambda>(k', x). (k', if k' = k then v else x)) al"
proof (induction al)
  case Nil
  then show ?case by simp
next
  case (Cons p al)
  obtain k' x where p: "p = (k', x)" by (cases p)
  show ?case
  proof (cases "k' = k")
    case True
    with Cons.prems have "k \<notin> fst ` set al" by (simp add: p)
    then have "map (\<lambda>(k', x). (k', if k' = k then v else x)) al = al"
      by (induction al) auto
    with True show ?thesis by (simp add: p)
  next
    case False
    with Cons show ?thesis by (auto simp: p)
  qed
qed

lemma update_loop_result:
  assumes "distinct (map fst groups)" and "distinct (map fst roster)"
    and "\<forall>(r, l) \<in> set groups. l \<noteq> [] \<and> r \<in> fst ` set roster"
  shows "update_loop groups roster =
     Inr (map (\<lambda>(r, d). (r, case map_of groups r of
                               None \<Rightarrow> d
                             | Some l \<Rightarrow> d\<lparr>curr_zip := Zip (last (sort_key apptdate l))\<rparr>))
            roster)"
  using assms
proof (induction groups arbitrary: roster)
  case Nil
  then show ?case by simp
next
  case (Cons g groups)
  obtain rep l where g: "g = (rep, l)" by (cases g)
  from Cons.prems(3) have l: "l \<noteq> []" and rep: "rep \<in> fst ` set roster"
    by (auto simp: g)
  from l have "sort_key apptdate l \<noteq> []"
    by (metis length_0_conv length_sort)
  then obtain s rest where sorted: "sort_key apptdate l = s # rest"
    by (cases "sort_key apptdate l") auto
  from rep Cons.prems(2) obtain d where d: "map_of roster rep = Some d"
    by (metis domD dom_map_of_conv_image_fst)
  let ?z = "Zip (last (sort_key apptdate l))"
  let ?roster1 = "AList.update rep (d\<lparr>curr_zip := ?z\<rparr>) roster"
  have step: "update_loop (g # groups) roster = update_loop groups ?roster1"
    by (simp add: g sorted d)
  have r1: "?roster1 = map (\<lambda>(k', x). (k', if k' = rep then d\<lparr>curr_zip := ?z\<rparr> else x)) roster"
    using Cons.prems(2) rep by (rule update_present)
  have keys1: "map fst ?roster1 = map fst roster"
    by (simp add: r1 case_prod_unfold comp_def)
  have d1: "distinct (map fst ?roster1)" using Cons.prems(2) by (simp only: keys1)
  have g1: "distinct (map fst groups)" using Cons.prems(1) by simp
  have c1: "\<forall>(r, l) \<in> set groups. l \<noteq> [] \<and> r \<in> fst ` set ?roster1"
    using Cons.prems(3) by (auto simp: dom_update)
  have fresh: "map_of groups rep = None"
    using Cons.prems(1) by (simp add: g map_of_eq_None_iff)
  have "update_loop groups ?roster1 =
     Inr (map (\<lambda>(r, d). (r, case map_of groups r of
                               None \<Rightarrow> d
                             | Some l \<Rightarrow> d\<lparr>curr_zip := Zip (last (sort_key apptdate l))\<rparr>))
            ?roster1)"
    using g1 d1 c1 by (rule Cons.IH)
  also have "map (\<lambda>(r, d). (r, case map_of groups r of
                               None \<Rightarrow> d
                             | Some l \<Rightarrow> d\<lparr>curr_zip := Zip (last (sort_key apptdate l))\<rparr>))
            ?roster1 =
      map (\<lambda>(r, d). (r, case map_of (g # groups) r of
                               None \<Rightarrow> d
                             | Some l \<Rightarrow> d\<lparr>curr_zip := Zip (last (sort_key apptdate l))\<rparr>))
            roster"
  proof -
    have "(k, x) \<in> set roster \<Longrightarrow> x = d" if "k = rep" for k x
      using that d Cons.prems(2) by simp
    then show ?thesis
      unfolding r1 by (auto simp: g fresh)
  qed
  finally show ?case using step by simp
qed

lemma sorted_le_last: "sorted xs \<Longrightarrow> x \<in> set xs \<Longrightarrow> x \<le> last xs"
  by (induction xs) auto

lemma last_sort_key_latest:
  assumes "l \<noteq> []"
  shows "last (sort_key f l) \<in> set l \<and> (\<forall>b \<in> set l. f b \<le> f (last (sort_key f l)))"
proof -
  let ?s = "sort_key f l"
  from assms have ne: "?s \<noteq> []" by (metis length_0_conv length_sort)
  then have "last ?s \<in> set ?s" by (rule last_in_set)
  then have mem: "last ?s \<in> set l" by simp
  have "sorted (map f ?s)" by (rule sorted_sort_key)
  have "f b \<le> f (last ?s)" if "b \<in> set l" for b
  proof -
    from that have "f b \<in> set (map f ?s)" by simp
    with \<open>sorted (map f ?s)\<close> have "f b \<le> last (map f ?s)"
      by (rule sorted_le_last)
    with ne show ?thesis by (simp add: last_map)
  qed
  with mem show ?thesis by blast
qed

lemma update_sales_reps_zip_result:
  assumes keys: "distinct (map fst sales_reps)"
    and known: "\<forall>x \<in> set assignments. assigned_to x \<in> fst ` set sales_reps"
  shows "update_sales_reps_zip assignments sales_reps =
     Inr (map (\<lambda>(rep, details).
                 (rep, if booked rep assignments = [] then details
                       else details\<lparr>curr_zip :=
                         Zip (last (sort_key apptdate
                                (map appointment (booked rep assignments))))\<rparr>))
            sales_reps)"
proof -
  let ?groups = "group_by_rep assignments []"
  have g: "distinct (map fst ?groups)" by (rule group_by_rep_keys) simp
  have "l \<noteq> [] \<and> r \<in> fst ` set sales_reps" if "(r, l) \<in> set ?groups" for r l
  proof -
    from that g have "map_of ?groups r = Some l" by simp
    then have ne: "booked r assignments \<noteq> []" and l: "l = map appointment (booked r assignments)"
      by (auto simp: group_by_rep_empty split: if_splits)
    from ne obtain x where "x \<in> set assignments" "assigned_to x = r"
      by (auto simp: filter_empty_conv)
    with known have "r \<in> fst ` set sales_reps" by blast
    with ne l show ?thesis by simp
  qed
  then have "\<forall>(r, l) \<in> set ?groups. l \<noteq> [] \<and> r \<in> fst ` set sales_reps" by blast
  from update_loop_result [OF g keys this]
  have "update_sales_reps_zip assignments sales_reps =
     Inr (map (\<lambda>(r, d). (r, case map_of ?groups r of
                               None \<Rightarrow> d
                             | Some l \<Rightarrow> d\<lparr>curr_zip := Zip (last (sort_key apptdate l))\<rparr>))
            sales_reps)"
    by (simp only: update_sales_reps_zip_def)
  also have "(\<lambda>(r, d). (r, case map_of ?groups r of
                               None \<Rightarrow> d
                             | Some l \<Rightarrow> d\<lparr>curr_zip := Zip (last (sort_key apptdate l))\<rparr>)) =
     (\<lambda>(rep, details).
                 (rep, if booked rep assignments = [] then details
                       else details\<lparr>curr_zip :=
                         Zip (last (sort_key apptdate
                                (map appointment (booked rep assignments))))\<rparr>))"
    by (auto simp: fun_eq_iff group_by_rep_empty)
  finally show ?thesis .
qed

text \<open>
  C4. Given a roster (no name twice) and a list of assignments to representatives of
  that roster, as the final list of a window is, \<^verbatim>\<open>update_sales_reps_zip\<close> returns a roster
  with the same names in the same order and the same scopes. A representative without an
  assignment in the list keeps its details. A representative with assignments has as
  \<^verbatim>\<open>curr_zip\<close> the \<^verbatim>\<open>Zip\<close> of one of its assignments whose \<^verbatim>\<open>apptdate\<close> is the latest of
  its assignments.
\<close>

theorem roster_after_window:
  assumes "distinct (map fst sales_reps)"
    and "\<forall>x \<in> set assignments. assigned_to x \<in> fst ` set sales_reps"
  shows "\<exists>sales_reps'. update_sales_reps_zip assignments sales_reps = Inr sales_reps' \<and>
    map fst sales_reps' = map fst sales_reps \<and>
    list_all2
      (\<lambda>(rep, details) (rep', details'). rep' = rep \<and> scope details' = scope details \<and>
         (if booked rep assignments = [] then details' = details
          else \<exists>x \<in> set (booked rep assignments).
                 curr_zip details' = Zip (appointment x) \<and>
                 (\<forall>y \<in> set (booked rep assignments).
                    apptdate (appointment y) \<le> apptdate (appointment x))))
      sales_reps sales_reps'"
proof -
  let ?new = "\<lambda>(rep, details).
                 (rep, if booked rep assignments = [] then details
                       else details\<lparr>curr_zip :=
                         Zip (last (sort_key apptdate
                                (map appointment (booked rep assignments))))\<rparr>)"
  have res: "update_sales_reps_zip assignments sales_reps = Inr (map ?new sales_reps)"
    using assms by (rule update_sales_reps_zip_result)
  have names: "map fst (map ?new sales_reps) = map fst sales_reps"
    by (simp add: case_prod_unfold comp_def)
  have latest: "\<exists>x \<in> set (booked rep assignments).
      Zip (last (sort_key apptdate (map appointment (booked rep assignments)))) =
        Zip (appointment x) \<and>
      (\<forall>y \<in> set (booked rep assignments).
         apptdate (appointment y) \<le> apptdate (appointment x))"
    if ne: "booked rep assignments \<noteq> []" for rep
  proof -
    let ?l = "map appointment (booked rep assignments)"
    from ne have "?l \<noteq> []" by simp
    from last_sort_key_latest [OF this, of apptdate]
    have mem: "last (sort_key apptdate ?l) \<in> set ?l"
      and top: "\<forall>b \<in> set ?l. apptdate b \<le> apptdate (last (sort_key apptdate ?l))"
      by auto
    from mem obtain x where x: "x \<in> set (booked rep assignments)"
      "last (sort_key apptdate ?l) = appointment x"
      by auto
    with top show ?thesis by auto
  qed
  have "list_all2
      (\<lambda>(rep, details) (rep', details'). rep' = rep \<and> scope details' = scope details \<and>
         (if booked rep assignments = [] then details' = details
          else \<exists>x \<in> set (booked rep assignments).
                 curr_zip details' = Zip (appointment x) \<and>
                 (\<forall>y \<in> set (booked rep assignments).
                    apptdate (appointment y) \<le> apptdate (appointment x))))
      sales_reps (map ?new sales_reps)"
  proof (unfold list_all2_map2, rule list_all2_same [THEN iffD2], intro ballI)
    fix p assume "p \<in> set sales_reps"
    obtain rep details where p: "p = (rep, details)" by (cases p)
    show "(case p of (rep, details) \<Rightarrow> \<lambda>(rep', details').
        rep' = rep \<and> scope details' = scope details \<and>
         (if booked rep assignments = [] then details' = details
          else \<exists>x \<in> set (booked rep assignments).
                 curr_zip details' = Zip (appointment x) \<and>
                 (\<forall>y \<in> set (booked rep assignments).
                    apptdate (appointment y) \<le> apptdate (appointment x)))) (?new p)"
      using latest [of rep] by (simp add: p)
  qed
  with res names show ?thesis by blast
qed

theorem roster_after_window_witness:
  "update_sales_reps_zip [held_late, held_early] two_reps =
     Inr [(''Ann'', \<lparr>curr_zip = ''98005'', scope = [''Bath'', ''Tub'']\<rparr>),
          (''Bob'', \<lparr>curr_zip = ''98002'', scope = [''Bath'']\<rparr>)] \<and>
   distinct (map fst two_reps) \<and>
   (\<exists>sales_reps'. update_sales_reps_zip [held_late, held_early] two_reps = Inr sales_reps' \<and>
      map fst sales_reps' = map fst two_reps \<and>
      list_all2
        (\<lambda>(rep, details) (rep', details'). rep' = rep \<and> scope details' = scope details \<and>
           (if booked rep [held_late, held_early] = [] then details' = details
            else \<exists>x \<in> set (booked rep [held_late, held_early]).
                   curr_zip details' = Zip (appointment x) \<and>
                   (\<forall>y \<in> set (booked rep [held_late, held_early]).
                      apptdate (appointment y) \<le> apptdate (appointment x))))
        two_reps sales_reps')"
proof -
  have run: "update_sales_reps_zip [held_late, held_early] two_reps =
     Inr [(''Ann'', \<lparr>curr_zip = ''98005'', scope = [''Bath'', ''Tub'']\<rparr>),
          (''Bob'', \<lparr>curr_zip = ''98002'', scope = [''Bath'']\<rparr>)]"
    by (simp add: update_sales_reps_zip_def held_late_def held_early_def two_reps_def)
  have keys: "distinct (map fst two_reps)"
    by (simp add: two_reps_def)
  have known: "\<forall>x \<in> set [held_late, held_early]. assigned_to x \<in> fst ` set two_reps"
    by (simp add: held_late_def held_early_def two_reps_def)
  from run keys roster_after_window [OF keys known] show ?thesis
    by (intro conjI)
qed

section \<open>What a call prints about the distance service\<close>










section \<open>Costs and diagnostics of a call\<close>













section \<open>The windows of a run\<close>

lemma run_workflow_results:
  assumes "run_workflow env appointments reps start end n allow st =
      Inr (reps', results, appointments', st')"
  obtains appts final where
    "convert_apptdates env appointments = Inr appts"
    "appointments' = map stored appts"
    "results = map (result_of env) final"
    "\<forall>x \<in> set final. appointment x \<in> set appts \<and> start \<le> apptdate (appointment x) \<and>
        apptdate (appointment x) \<le> end"
proof -
  from assms obtain final reps1 where
    run: "assign_to_closest_rep env appointments reps start end st =
      Inr (final, appointments', st')"
    and res: "results = map (result_of env) final"
    by (auto simp: run_workflow_def process_time_window_def split: sum.splits)
  from run obtain appts where conv: "convert_apptdates env appointments = Inr appts"
    and sub: "mset (map appointment final) \<subseteq># mset (filtered_appointments start end appts)"
    by (rule assign_to_closest_rep_final)
  from assign_to_closest_rep_appointments [OF run] conv
  have after: "appointments' = map stored appts" by simp
  from set_mset_mono [OF sub]
  have "appointment ` set final \<subseteq> set (filtered_appointments start end appts)" by simp
  then have "\<forall>x \<in> set final. appointment x \<in> set appts \<and> start \<le> apptdate (appointment x) \<and>
        apptdate (appointment x) \<le> end"
    by (auto simp: filtered_appointments_def)
  with that conv after res show thesis by blast
qed

lemma main_workflow_windows:
  assumes "main_workflow env appointments reps st = Inr (all_results, reps', appointments', st')"
  obtains appts reps1 res1 st1 reps2 res2 st2 res3 where
    "convert_apptdates env appointments = Inr appts" "appts \<noteq> []"
    "run_workflow env (map stored appts) reps
       (Min (set (map apptdate appts)))
       (Min (set (map apptdate appts)) + timedelta 2 0) 1 True st =
       Inr (reps1, res1, map stored appts, st1)"
    "run_workflow env (map stored appts) reps1
       (Min (set (map apptdate appts)) + timedelta 2 1)
       (Min (set (map apptdate appts)) + timedelta 5 0) 2 True st1 =
       Inr (reps2, res2, map stored appts, st2)"
    "run_workflow env (map stored appts) reps2
       (Min (set (map apptdate appts)) + timedelta 5 1)
       (Max (set (map apptdate appts))) 3 False st2 =
       Inr (reps', res3, map stored appts, st')"
    "all_results = Title 1 # res1 @ Blank # Title 2 # res2 @ Blank # Title 3 # res3 @ [Blank]"
proof -
  from assms obtain appts where conv: "convert_apptdates env appointments = Inr appts"
    and ne: "appts \<noteq> []"
    and loop: "window_loop env
        (time_windows (Min (set (map apptdate appts))) (Max (set (map apptdate appts))))
        ([], reps, map stored appts, st) = Inr (all_results, reps', appointments', st')"
    by (auto simp: main_workflow_def Let_def split: sum.splits if_splits)
  let ?e = "Min (set (map apptdate appts))"
  let ?l = "Max (set (map apptdate appts))"
  let ?ap = "map stored appts"
  from loop obtain reps1 res1 ap1 st1 where
    w1: "run_workflow env ?ap reps ?e (?e + timedelta 2 0) 1 True st = Inr (reps1, res1, ap1, st1)"
    and loop2: "window_loop env
        [(2, ?e + timedelta 2 1, ?e + timedelta 5 0, True), (3, ?e + timedelta 5 1, ?l, False)]
        ([] @ [Title 1] @ res1 @ [Blank], reps1, ap1, st1) =
        Inr (all_results, reps', appointments', st')"
    by (simp add: time_windows_def split: sum.splits prod.splits)
  from run_workflow_appointments [OF w1] have ap1: "ap1 = ?ap"
    by (simp add: convert_apptdates_stored)
  from loop2 obtain reps2 res2 ap2 st2 where
    w2: "run_workflow env ?ap reps1 (?e + timedelta 2 1) (?e + timedelta 5 0) 2 True st1 =
        Inr (reps2, res2, ap2, st2)"
    and loop3: "window_loop env [(3, ?e + timedelta 5 1, ?l, False)]
        (([] @ [Title 1] @ res1 @ [Blank]) @ [Title 2] @ res2 @ [Blank], reps2, ap2, st2) =
        Inr (all_results, reps', appointments', st')"
    unfolding ap1 by (simp split: sum.splits prod.splits)
  from run_workflow_appointments [OF w2] have ap2: "ap2 = ?ap"
    by (simp add: convert_apptdates_stored)
  from loop3 obtain res3 ap3 where
    w3: "run_workflow env ?ap reps2 (?e + timedelta 5 1) ?l 3 False st2 =
        Inr (reps', res3, ap3, st')"
    and all: "all_results =
        (([] @ [Title 1] @ res1 @ [Blank]) @ [Title 2] @ res2 @ [Blank]) @
        [Title 3] @ res3 @ [Blank]"
    unfolding ap2 by (auto split: sum.splits prod.splits)
  from run_workflow_appointments [OF w3] have ap3: "ap3 = ?ap"
    by (simp add: convert_apptdates_stored)
  from all have "all_results =
      Title 1 # res1 @ Blank # Title 2 # res2 @ Blank # Title 3 # res3 @ [Blank]"
    by simp
  with that conv ne w1 [unfolded ap1] w2 [unfolded ap2] w3 [unfolded ap3]
  show thesis by blast
qed


lemma result_of_customer: "result_of env x = Row fs \<Longrightarrow> Customer_Number fs = custnumber (appointment x)"
  by (auto simp: result_of_def Let_def)

text \<open>
  C10. In a run that reaches its end, \<^verbatim>\<open>all_results\<close> is the title of window 1, its rows,
  a blank line, and the same for windows 2 and 3. Every row of a window is the row of an
  assignment whose appointment is one of the appointments given and has its date in that
  window: from the earliest date to two hours later, from two hours and one minute to
  five hours later, from five hours and one minute later to the latest date. The second
  and third windows begin one minute after the end of the window before. An appointment
  whose date lies strictly inside one of the two gaps is in the list of no window, and,
  customer numbers being distinct, no row bears its customer number. When the latest
  date is before five hours and one minute after the earliest, the third window holds no
  appointment and has no row.
\<close>

theorem windows_leave_gaps:
  assumes run: "main_workflow env appointments sales_reps st =
      Inr (all_results, sales_reps', appointments', st')"
    and dates: "convert_apptdates env appointments = Inr appts"
    and earliest: "earliest_time = Min (set (map apptdate appts))"
    and last: "last_time = Max (set (map apptdate appts))"
  shows "(\<exists>rows1 rows2 rows3.
      all_results =
        Title 1 # rows1 @ Blank # Title 2 # rows2 @ Blank # Title 3 # rows3 @ [Blank] \<and>
      (\<forall>row \<in> set rows1. \<exists>x. row = result_of env x \<and> appointment x \<in> set appts \<and>
         earliest_time \<le> apptdate (appointment x) \<and>
         apptdate (appointment x) \<le> earliest_time + timedelta 2 0) \<and>
      (\<forall>row \<in> set rows2. \<exists>x. row = result_of env x \<and> appointment x \<in> set appts \<and>
         earliest_time + timedelta 2 1 \<le> apptdate (appointment x) \<and>
         apptdate (appointment x) \<le> earliest_time + timedelta 5 0) \<and>
      (\<forall>row \<in> set rows3. \<exists>x. row = result_of env x \<and> appointment x \<in> set appts \<and>
         earliest_time + timedelta 5 1 \<le> apptdate (appointment x) \<and>
         apptdate (appointment x) \<le> last_time) \<and>
      (last_time < earliest_time + timedelta 5 1 \<longrightarrow>
         filtered_appointments (earliest_time + timedelta 5 1) last_time appts = [] \<and>
         rows3 = [])) \<and>
    timedelta 2 1 = timedelta 2 0 + timedelta 0 1 \<and>
    timedelta 5 1 = timedelta 5 0 + timedelta 0 1 \<and>
    (\<forall>a \<in> set appts.
       (earliest_time + timedelta 2 0 < apptdate a \<and>
        apptdate a < earliest_time + timedelta 2 1) \<or>
       (earliest_time + timedelta 5 0 < apptdate a \<and>
        apptdate a < earliest_time + timedelta 5 1) \<longrightarrow>
       (\<forall>(n, start, end, allow) \<in> set (time_windows earliest_time last_time).
          a \<notin> set (filtered_appointments start end appts)) \<and>
       (distinct (map custnumber appts) \<longrightarrow>
          (\<forall>row \<in> set all_results. \<forall>fs. row = Row fs \<longrightarrow>
             Customer_Number fs \<noteq> custnumber a)))"
proof -
  let ?in = "\<lambda>start end row. \<exists>x. row = result_of env x \<and> appointment x \<in> set appts \<and>
         start \<le> apptdate (appointment x) \<and> apptdate (appointment x) \<le> end"
  from run obtain appts0 reps1 res1 st1 reps2 res2 st2 res3 where
    conv0: "convert_apptdates env appointments = Inr appts0"
    and w1: "run_workflow env (map stored appts0) sales_reps
       (Min (set (map apptdate appts0)))
       (Min (set (map apptdate appts0)) + timedelta 2 0) 1 True st =
       Inr (reps1, res1, map stored appts0, st1)"
    and w2: "run_workflow env (map stored appts0) reps1
       (Min (set (map apptdate appts0)) + timedelta 2 1)
       (Min (set (map apptdate appts0)) + timedelta 5 0) 2 True st1 =
       Inr (reps2, res2, map stored appts0, st2)"
    and w3: "run_workflow env (map stored appts0) reps2
       (Min (set (map apptdate appts0)) + timedelta 5 1)
       (Max (set (map apptdate appts0))) 3 False st2 =
       Inr (sales_reps', res3, map stored appts0, st')"
    and all: "all_results =
       Title 1 # res1 @ Blank # Title 2 # res2 @ Blank # Title 3 # res3 @ [Blank]"
    by (rule main_workflow_windows)
  from conv0 dates have same: "appts0 = appts" by simp
  have rows: "\<forall>row \<in> set results. ?in start end row"
    if "run_workflow env (map stored appts) reps start end n allow s =
       Inr (reps', results, ap, s')" for reps start "end" n allow s reps' results ap s'
  proof -
    from that obtain appts1 final where
      c: "convert_apptdates env (map stored appts) = Inr appts1"
      and r: "results = map (result_of env) final"
      and f: "\<forall>x \<in> set final. appointment x \<in> set appts1 \<and> start \<le> apptdate (appointment x) \<and>
        apptdate (appointment x) \<le> end"
      by (rule run_workflow_results)
    from c have "appts1 = appts" by (simp add: convert_apptdates_stored)
    with r f show ?thesis by auto
  qed
  note w1' = w1 [unfolded same, folded earliest last]
  note w2' = w2 [unfolded same, folded earliest last]
  note w3' = w3 [unfolded same, folded earliest last]
  have r1: "\<forall>row \<in> set res1. ?in earliest_time (earliest_time + timedelta 2 0) row"
    using w1' by (rule rows)
  have r2: "\<forall>row \<in> set res2.
      ?in (earliest_time + timedelta 2 1) (earliest_time + timedelta 5 0) row"
    using w2' by (rule rows)
  have r3: "\<forall>row \<in> set res3. ?in (earliest_time + timedelta 5 1) last_time row"
    using w3' by (rule rows)
  have empty3: "last_time < earliest_time + timedelta 5 1 \<longrightarrow>
      filtered_appointments (earliest_time + timedelta 5 1) last_time appts = [] \<and>
      res3 = []"
  proof (intro impI conjI)
    assume that: "last_time < earliest_time + timedelta 5 1"
    from that show "filtered_appointments (earliest_time + timedelta 5 1) last_time appts = []"
      by (auto simp: filtered_appointments_def filter_empty_conv)
  next
    assume that: "last_time < earliest_time + timedelta 5 1"
    show "res3 = []"
    proof (cases res3)
      case Nil
      then show ?thesis .
    next
      case (Cons row rest)
      with r3 have "?in (earliest_time + timedelta 5 1) last_time row" by simp
      with that show ?thesis by auto
    qed
  qed
  have part1: "\<exists>rows1 rows2 rows3.
      all_results =
        Title 1 # rows1 @ Blank # Title 2 # rows2 @ Blank # Title 3 # rows3 @ [Blank] \<and>
      (\<forall>row \<in> set rows1. ?in earliest_time (earliest_time + timedelta 2 0) row) \<and>
      (\<forall>row \<in> set rows2.
         ?in (earliest_time + timedelta 2 1) (earliest_time + timedelta 5 0) row) \<and>
      (\<forall>row \<in> set rows3. ?in (earliest_time + timedelta 5 1) last_time row) \<and>
      (last_time < earliest_time + timedelta 5 1 \<longrightarrow>
         filtered_appointments (earliest_time + timedelta 5 1) last_time appts = [] \<and>
         rows3 = [])"
    by (insert all r1 r2 r3 empty3, rule exI [of _ res1], rule exI [of _ res2],
        rule exI [of _ res3], intro conjI; assumption)
  have t2: "timedelta 2 1 = timedelta 2 0 + timedelta 0 1"
    and t5: "timedelta 5 1 = timedelta 5 0 + timedelta 0 1"
    by (simp_all add: timedelta_def)
  have part2: "(\<forall>(n, start, end, allow) \<in> set (time_windows earliest_time last_time).
          a \<notin> set (filtered_appointments start end appts)) \<and>
       (distinct (map custnumber appts) \<longrightarrow>
          (\<forall>row \<in> set all_results. \<forall>fs. row = Row fs \<longrightarrow>
             Customer_Number fs \<noteq> custnumber a))"
    if a: "a \<in> set appts"
      and gap: "(earliest_time + timedelta 2 0 < apptdate a \<and>
        apptdate a < earliest_time + timedelta 2 1) \<or>
       (earliest_time + timedelta 5 0 < apptdate a \<and>
        apptdate a < earliest_time + timedelta 5 1)" for a
  proof
    from gap show "\<forall>(n, start, end, allow) \<in> set (time_windows earliest_time last_time).
          a \<notin> set (filtered_appointments start end appts)"
      by (auto simp: time_windows_def filtered_appointments_def timedelta_def)
    show "distinct (map custnumber appts) \<longrightarrow>
          (\<forall>row \<in> set all_results. \<forall>fs. row = Row fs \<longrightarrow>
             Customer_Number fs \<noteq> custnumber a)"
    proof (intro impI ballI allI)
      fix row fs
      assume d: "distinct (map custnumber appts)" and row: "row \<in> set all_results"
        and fs: "row = Row fs"
      from row fs all have place: "row \<in> set res1 \<or> row \<in> set res2 \<or> row \<in> set res3"
        by auto
      let ?w = "\<lambda>x. (earliest_time \<le> apptdate (appointment x) \<and>
            apptdate (appointment x) \<le> earliest_time + timedelta 2 0) \<or>
          (earliest_time + timedelta 2 1 \<le> apptdate (appointment x) \<and>
            apptdate (appointment x) \<le> earliest_time + timedelta 5 0) \<or>
          (earliest_time + timedelta 5 1 \<le> apptdate (appointment x) \<and>
            apptdate (appointment x) \<le> last_time)"
      have "\<exists>x. row = result_of env x \<and> appointment x \<in> set appts \<and> ?w x"
        using place
      proof (elim disjE)
        assume "row \<in> set res1"
        from bspec [OF r1 this] show ?thesis by (elim exE conjE) (intro exI conjI disjI1)
      next
        assume "row \<in> set res2"
        from bspec [OF r2 this] show ?thesis
          by (elim exE conjE) (intro exI conjI disjI2 disjI1)
      next
        assume "row \<in> set res3"
        from bspec [OF r3 this] show ?thesis
          by (elim exE conjE) (intro exI conjI disjI2)
      qed
      then obtain x where x: "row = result_of env x" "appointment x \<in> set appts"
        and window: "?w x"
        by (elim exE conjE)
      from x(1) fs have c: "Customer_Number fs = custnumber (appointment x)"
        by (simp add: result_of_customer)
      show "Customer_Number fs \<noteq> custnumber a"
      proof
        assume "Customer_Number fs = custnumber a"
        with c have "custnumber (appointment x) = custnumber a" by simp
        with d x(2) a have "appointment x = a"
          by (auto simp: distinct_map inj_on_def)
        with window gap show False
          by (auto simp: timedelta_def)
      qed
    qed
  qed
  show ?thesis
  proof (intro conjI)
    show "\<exists>rows1 rows2 rows3.
      all_results =
        Title 1 # rows1 @ Blank # Title 2 # rows2 @ Blank # Title 3 # rows3 @ [Blank] \<and>
      (\<forall>row \<in> set rows1. ?in earliest_time (earliest_time + timedelta 2 0) row) \<and>
      (\<forall>row \<in> set rows2.
         ?in (earliest_time + timedelta 2 1) (earliest_time + timedelta 5 0) row) \<and>
      (\<forall>row \<in> set rows3. ?in (earliest_time + timedelta 5 1) last_time row) \<and>
      (last_time < earliest_time + timedelta 5 1 \<longrightarrow>
         filtered_appointments (earliest_time + timedelta 5 1) last_time appts = [] \<and>
         rows3 = [])"
      by (rule part1)
    show "timedelta 2 1 = timedelta 2 0 + timedelta 0 1" by (rule t2)
    show "timedelta 5 1 = timedelta 5 0 + timedelta 0 1" by (rule t5)
    show "\<forall>a \<in> set appts.
       (earliest_time + timedelta 2 0 < apptdate a \<and>
        apptdate a < earliest_time + timedelta 2 1) \<or>
       (earliest_time + timedelta 5 0 < apptdate a \<and>
        apptdate a < earliest_time + timedelta 5 1) \<longrightarrow>
       (\<forall>(n, start, end, allow) \<in> set (time_windows earliest_time last_time).
          a \<notin> set (filtered_appointments start end appts)) \<and>
       (distinct (map custnumber appts) \<longrightarrow>
          (\<forall>row \<in> set all_results. \<forall>fs. row = Row fs \<longrightarrow>
             Customer_Number fs \<noteq> custnumber a))"
      by (intro ballI impI) (rule part2; assumption)
  qed
qed

theorem windows_leave_gaps_witness:
  "results_of (main_workflow (example_env always_ok) [appt1, appt_gap, appt_late] two_reps
      st_empty) = Some day_rows \<and>
   convert_apptdates (example_env always_ok) [appt1, appt_gap, appt_late] =
      Inr [conv1, conv_gap, conv_late] \<and>
   (1734685200000000 + timedelta 2 0 < apptdate conv_gap \<and>
    apptdate conv_gap < 1734685200000000 + timedelta 2 1) \<and>
   conv_gap \<notin> set (filtered_appointments 1734685200000000 (1734685200000000 + timedelta 2 0)
      [conv1, conv_gap, conv_late]) \<and>
   conv_gap \<notin> set (filtered_appointments (1734685200000000 + timedelta 2 1)
      (1734685200000000 + timedelta 5 0) [conv1, conv_gap, conv_late]) \<and>
   conv_gap \<notin> set (filtered_appointments (1734685200000000 + timedelta 5 1) 1734696000000000
      [conv1, conv_gap, conv_late]) \<and>
   (\<exists>rows1 rows2 rows3.
      day_rows =
        Title 1 # rows1 @ Blank # Title 2 # rows2 @ Blank # Title 3 # rows3 @ [Blank] \<and>
      rows3 = [])"
proof -
  let ?env = "example_env always_ok"
  let ?appts = "[conv1, conv_gap, conv_late]"
  have dates: "convert_apptdates ?env [appt1, appt_gap, appt_late] = Inr ?appts"
    by (simp add: to_datetime_def appt1_def appt_gap_def appt_late_def conv1_def conv_gap_def
        conv_late_def)
  have earliest: "1734685200000000 = Min (set (map apptdate ?appts))"
    by (simp add: conv1_def conv_gap_def conv_late_def)
  have last: "1734696000000000 = Max (set (map apptdate ?appts))"
    by (simp add: conv1_def conv_gap_def conv_late_def)
  have "\<exists>sales_reps' appointments' st'.
      main_workflow ?env [appt1, appt_gap, appt_late] two_reps st_empty =
        Inr (day_rows, sales_reps', appointments', st')"
    by (simp add: main_workflow_def time_windows_def timedelta_def run_workflow_def
        process_time_window_def update_sales_reps_zip_def result_of_def
        assign_to_closest_rep_def assign_body_def to_datetime_def filtered_appointments_def
        get_drive_time_def cache_key_def stored_def example_env_def always_ok_def
        ok_response_def st_empty_def appt1_def appt_gap_def appt_late_def two_reps_def
        day_rows_def)
  then obtain sales_reps' appointments' st' where
    run: "main_workflow ?env [appt1, appt_gap, appt_late] two_reps st_empty =
        Inr (day_rows, sales_reps', appointments', st')"
    by blast
  note inst = windows_leave_gaps [OF run dates earliest last]
  have member: "conv_gap \<in> set ?appts" by simp
  have gap: "1734685200000000 + timedelta 2 0 < apptdate conv_gap \<and>
      apptdate conv_gap < 1734685200000000 + timedelta 2 1"
    by (simp add: timedelta_def conv_gap_def)
  note at_gap = bspec [OF inst [THEN conjunct2, THEN conjunct2, THEN conjunct2] member]
  from mp [OF at_gap disjI1 [OF gap]]
  have "\<forall>(n, start, end, allow) \<in> set (time_windows 1734685200000000 1734696000000000).
          conv_gap \<notin> set (filtered_appointments start end ?appts)"
    by (rule conjunct1)
  then have nowhere:
    "conv_gap \<notin> set (filtered_appointments 1734685200000000
        (1734685200000000 + timedelta 2 0) ?appts)"
    "conv_gap \<notin> set (filtered_appointments (1734685200000000 + timedelta 2 1)
        (1734685200000000 + timedelta 5 0) ?appts)"
    "conv_gap \<notin> set (filtered_appointments (1734685200000000 + timedelta 5 1)
        1734696000000000 ?appts)"
    by (simp_all add: time_windows_def)
  have short: "(1734696000000000::int) < 1734685200000000 + timedelta 5 1"
    by (simp add: timedelta_def)
  from inst [THEN conjunct1] obtain rows1 rows2 rows3 where
    shape: "day_rows =
        Title 1 # rows1 @ Blank # Title 2 # rows2 @ Blank # Title 3 # rows3 @ [Blank]"
    and none: "1734696000000000 < 1734685200000000 + timedelta 5 1 \<longrightarrow>
         filtered_appointments (1734685200000000 + timedelta 5 1) 1734696000000000 ?appts = [] \<and>
         rows3 = []"
    by (elim exE conjE) (rule that; assumption)
  from mp [OF none short] have "rows3 = []" by (rule conjunct2)
  with shape have third: "\<exists>rows1 rows2 rows3.
      day_rows =
        Title 1 # rows1 @ Blank # Title 2 # rows2 @ Blank # Title 3 # rows3 @ [Blank] \<and>
      rows3 = []"
    by (intro exI conjI)
  from run have rows: "results_of (main_workflow ?env [appt1, appt_gap, appt_late] two_reps
      st_empty) = Some day_rows"
    by (simp add: results_of_def)
  from rows dates gap [THEN conjunct1] gap [THEN conjunct2] nowhere third show ?thesis
    by (intro conjI)
qed

section \<open>Failures of the distance service\<close>




















section \<open>The cache from one window to the next\<close>

text \<open>
  C6. The cache is the local variable \<^verbatim>\<open>drive_time_cache\<close> of the assignment function,
  which the source marks as the global cache; every window begins with an empty one. In
  the run below the first window looks up the pair 98001, 98003 and caches 20 minutes.
  The second window, called with the roster and the state the first has left, asks the
  service for the same pair again and assigns with the 30 minutes it answers this time:
  the run has made three calls, two of them for this pair.
\<close>

theorem cache_not_kept_between_windows:
  "left_by (run_workflow (example_env slower_each_call) [bath_first, tub_later] ann_bob
      1734685200000000 (1734685200000000 + timedelta 2 0) 1 True st_empty) =
     Some (ann_moved, st_after_first_window) \<and>
   drive_time_cache st_after_first_window (cache_key ''98001'' ''98003'') = Some 20 \<and>
   assignments_of
     (assign_to_closest_rep (example_env slower_each_call) [bath_first, tub_later] ann_moved
        (1734685200000000 + timedelta 2 1) (1734685200000000 + timedelta 5 0)
        st_after_first_window) = Some [tub_assigned] \<and>
   calls_of (main_workflow (example_env slower_each_call) [bath_first, tub_later] ann_bob
      st_empty) =
     Some [(''98001'', ''98002''), (''98001'', ''98003''), (''98001'', ''98003'')]"
proof (intro conjI)
  show "left_by (run_workflow (example_env slower_each_call) [bath_first, tub_later] ann_bob
      1734685200000000 (1734685200000000 + timedelta 2 0) 1 True st_empty) =
     Some (ann_moved, st_after_first_window)"
    by (simp add: left_by_def timedelta_def run_workflow_def
        process_time_window_def update_sales_reps_zip_def
        assign_to_closest_rep_def assign_body_def to_datetime_def filtered_appointments_def
        get_drive_time_def cache_key_def example_env_def slower_each_call_def
        ok_response_def st_empty_def bath_first_def tub_later_def ann_bob_def ann_moved_def
        st_after_first_window_def)
  show "drive_time_cache st_after_first_window (cache_key ''98001'' ''98003'') = Some 20"
    by (simp add: st_after_first_window_def cache_key_def)
  show "assignments_of
     (assign_to_closest_rep (example_env slower_each_call) [bath_first, tub_later] ann_moved
        (1734685200000000 + timedelta 2 1) (1734685200000000 + timedelta 5 0)
        st_after_first_window) = Some [tub_assigned]"
    by (simp add: assignments_of_def timedelta_def
        assign_to_closest_rep_def assign_body_def to_datetime_def filtered_appointments_def
        get_drive_time_def cache_key_def example_env_def slower_each_call_def
        ok_response_def bath_first_def tub_later_def ann_moved_def
        st_after_first_window_def tub_assigned_def)
  show "calls_of (main_workflow (example_env slower_each_call) [bath_first, tub_later] ann_bob
      st_empty) =
     Some [(''98001'', ''98002''), (''98001'', ''98003''), (''98001'', ''98003'')]"
    by (simp add: calls_of_def main_workflow_def time_windows_def timedelta_def
        run_workflow_def process_time_window_def update_sales_reps_zip_def
        assign_to_closest_rep_def assign_body_def to_datetime_def filtered_appointments_def
        get_drive_time_def cache_key_def stored_def example_env_def slower_each_call_def
        ok_response_def st_empty_def bath_first_def tub_later_def ann_bob_def)
qed

end
